theory Spec2Isabelle
  imports Main
begin

section \<open>Data exchanged with the collaborators\<close>

text \<open>
  \<^verbatim>\<open>deform/form.py\<close> builds a tree of \<^verbatim>\<open>Field\<close> objects over a colander schema and
  dispatches rendering and validation to widgets. The schema system, the widgets, the
  renderer and peppercorn are not part of the file; their values are modelled by the
  types of this section and their behaviour is a parameter of the functions that call
  them.

  A \<open>struct\<close> is a pstruct, a cstruct or a deserialized value: nested mappings and
  sequences over strings. \<open>fields\<close> is the document-ordered submission.
\<close>

datatype struct = SNone | SStr string | SMap "(string \<times> struct) list" | SSeq "struct list"

type_synonym fields = "(string \<times> string) list"

text \<open>The exception object \<^verbatim>\<open>colander.Invalid\<close>, with its message.\<close>

datatype invalid = InvalidError string

text \<open>
  A widget object is an instance of a widget class; \<open>wid\<close> is the identity of the
  instance (two instantiations never yield the same object). \<open>TypeWidget n\<close> stands for
  a class that a schema type names as its \<^verbatim>\<open>default_widget_maker\<close>.
\<close>

datatype widget_class = TextInputWidget | FormWidget | TypeWidget string

datatype widget = Widget (wclass: widget_class) (wid: nat)

text \<open>
  A renderer is any Python object; \<open>truthy\<close> is what \<^verbatim>\<open>bool(renderer)\<close> gives, which
  \<^verbatim>\<open>renderer or template.default_renderer\<close> tests.
\<close>

datatype renderer = Renderer (rname: string) (truthy: bool)

text \<open>
  The schema node contract: \<^verbatim>\<open>name\<close>, \<^verbatim>\<open>title\<close>, \<^verbatim>\<open>description\<close>, \<^verbatim>\<open>required\<close>,
  \<^verbatim>\<open>typ\<close>, \<^verbatim>\<open>sdefault\<close> and \<^verbatim>\<open>children\<close>. A type may or may not have the attribute
  \<^verbatim>\<open>default_widget_maker\<close>.
\<close>

datatype styp = Typ (tname: string) (default_widget_maker: "widget_class option")

datatype schema =
  SchemaNode (sname: string) (stitle: string) (sdescription: string) (srequired: bool)
    (styp: styp) (sdefault: struct) (schildren: "schema list")

section \<open>Button\<close>

text \<open>
  A Python 2 string is a byte string (\<^verbatim>\<open>str\<close>) or a unicode string (\<^verbatim>\<open>unicode\<close>); both
  are instances of \<^verbatim>\<open>basestring\<close>, and a button name may be either. A unicode string is
  modelled by the sequence of its code units.
\<close>

datatype pystr = Bytes string | Unicode "nat list"

text \<open>
  \<^verbatim>\<open>str.capitalize\<close> on a byte string: the first character is upper-cased and every other
  character is lower-cased, by the C library's \<^verbatim>\<open>toupper\<close> and \<^verbatim>\<open>tolower\<close>, which in
  the C locale the interpreter starts in change ASCII letters only.
\<close>

definition upper_char :: "char \<Rightarrow> char" where
  "upper_char c =
     (let n = (of_char c :: nat) in if 97 \<le> n \<and> n \<le> 122 then char_of (n - 32) else c)"

definition lower_char :: "char \<Rightarrow> char" where
  "lower_char c =
     (let n = (of_char c :: nat) in if 65 \<le> n \<and> n \<le> 90 then char_of (n + 32) else c)"

fun capitalize_str :: "string \<Rightarrow> string" where
  "capitalize_str [] = []"
| "capitalize_str (c # cs) = upper_char c # map lower_char cs"

text \<open>
  \<^verbatim>\<open>unicode.capitalize\<close> does the same with the case mappings of the interpreter's Unicode
  character database, which also change letters outside ASCII. The database belongs to
  the interpreter, not to the repository: \<open>uni_upper\<close> is the mapping \<^verbatim>\<open>capitalize\<close>
  applies to the first character and \<open>uni_lower\<close> the one it applies to every later
  character, and both are a parameter.
\<close>

record unicode_db =
  uni_upper :: "nat \<Rightarrow> nat"
  uni_lower :: "nat \<Rightarrow> nat"

fun capitalize_unicode :: "unicode_db \<Rightarrow> nat list \<Rightarrow> nat list" where
  "capitalize_unicode U [] = []"
| "capitalize_unicode U (c # cs) = uni_upper U c # map (uni_lower U) cs"

text \<open>\<^verbatim>\<open>name.capitalize()\<close>, dispatched on the type of the string.\<close>

fun capitalize :: "unicode_db \<Rightarrow> pystr \<Rightarrow> pystr" where
  "capitalize U (Bytes cs) = Bytes (capitalize_str cs)"
| "capitalize U (Unicode us) = Unicode (capitalize_unicode U us)"

datatype button = Button (bname: pystr) (btitle: pystr) (bvalue: pystr)

text \<open>
  \<^verbatim>\<open>Button.__init__(self, name='submit', title=None, value=None)\<close>. For \<open>name\<close>,
  \<open>None\<close> is the omitted argument; for \<open>title\<close> and \<open>value\<close> it is Python's \<^verbatim>\<open>None\<close>.
\<close>

definition Button_init ::
  "unicode_db \<Rightarrow> pystr option \<Rightarrow> pystr option \<Rightarrow> pystr option \<Rightarrow> button" where
  "Button_init U name_arg title_arg value_arg =
     (let name = (case name_arg of None \<Rightarrow> Bytes ''submit'' | Some n \<Rightarrow> n);
          title = (case title_arg of None \<Rightarrow> capitalize U name | Some t \<Rightarrow> t);
          val = (case value_arg of None \<Rightarrow> name | Some v \<Rightarrow> v)
      in Button name title val)"

section \<open>The object store\<close>

type_synonym addr = nat

datatype cls = FieldCls | FormCls

text \<open>
  One \<^verbatim>\<open>Field\<close> or \<^verbatim>\<open>Form\<close> instance. \<open>cls\<close> is \<^verbatim>\<open>__class__\<close>; the other components
  are the entries of the instance \<^verbatim>\<open>__dict__\<close>. An optional component is \<open>None\<close> while
  the instance dictionary has no such key: \<open>widget\<close> and \<open>default\<close> before they are
  resolved or assigned, and \<open>action\<close>, \<open>http_method\<close> (the attribute \<^verbatim>\<open>method\<close>) and
  \<open>buttons\<close> on a plain \<^verbatim>\<open>Field\<close>. \<open>error\<close> reads \<open>None\<close> through the class attribute
  \<^verbatim>\<open>error = None\<close> until something is assigned. \<open>children\<close> holds references.
\<close>

record field_obj =
  cls :: cls
  schema :: schema
  renderer :: renderer
  name :: string
  title :: string
  description :: string
  required :: bool
  children :: "addr list"
  widget :: "widget option"
  default :: "struct option"
  error :: "invalid option"
  action :: "string option"
  http_method :: "string option"
  buttons :: "button list option"

text \<open>
  The calls the modelled code makes to its collaborators, in the order it makes them.
\<close>

datatype event =
    Instantiated widget
  | Widget_function addr
  | Default_function addr
  | Parse fields
  | Deserialize widget addr struct
  | Schema_deserialize schema struct
  | Handle_error widget addr invalid

text \<open>
  The store: objects by address, the next free address, the next widget identity, and
  the log of calls. Objects are allocated at increasing addresses.
\<close>

record state =
  heap :: "addr \<Rightarrow> field_obj"
  next_addr :: addr
  next_wid :: nat
  trace :: "event list"

definition log :: "event \<Rightarrow> state \<Rightarrow> state" where
  "log ev s = s\<lparr>trace := trace s @ [ev]\<rparr>"

definition store :: "addr \<Rightarrow> field_obj \<Rightarrow> state \<Rightarrow> state" where
  "store a obj s = s\<lparr>heap := (heap s)(a := obj)\<rparr>"

text \<open>Calling a widget class (or any widget factory) yields a new instance.\<close>

definition instantiate :: "widget_class \<Rightarrow> state \<Rightarrow> widget \<times> state" where
  "instantiate k s =
     (let w = Widget k (next_wid s)
      in (w, log (Instantiated w) (s\<lparr>next_wid := Suc (next_wid s)\<rparr>)))"

section \<open>Field\<close>

text \<open>\<^verbatim>\<open>renderer or template.default_renderer\<close>; \<open>dr\<close> is the module's default renderer.\<close>

definition renderer_or :: "renderer option \<Rightarrow> renderer \<Rightarrow> renderer" where
  "renderer_or r dr = (case r of None \<Rightarrow> dr | Some x \<Rightarrow> if truthy x then x else dr)"

text \<open>
  \<^verbatim>\<open>Field.__init__\<close> on a new instance of class \<open>c\<close> (\<^verbatim>\<open>Form.__init__\<close> runs it on a
  \<^verbatim>\<open>Form\<close>). The instance is allocated first, its attributes are set,
  \<^verbatim>\<open>self.children\<close> starts empty, and the loop appends one new \<^verbatim>\<open>Field\<close> per schema
  child, passing on the \<open>renderer\<close> argument as it was given.
\<close>

function Field_init :: "renderer \<Rightarrow> cls \<Rightarrow> schema \<Rightarrow> renderer option \<Rightarrow> state \<Rightarrow> addr \<times> state"
  and init_children :: "renderer \<Rightarrow> addr \<Rightarrow> schema list \<Rightarrow> renderer option \<Rightarrow> state \<Rightarrow> state"
where
  "Field_init dr c (SchemaNode n t d rq ty sd chs) r s =
     (let self = next_addr s;
          obj = \<lparr>cls = c, schema = SchemaNode n t d rq ty sd chs, renderer = renderer_or r dr,
                 name = n, title = t, description = d, required = rq, children = [],
                 widget = None, default = None, error = None,
                 action = None, http_method = None, buttons = None\<rparr>;
          s1 = store self obj (s\<lparr>next_addr := Suc self\<rparr>)
      in (self, init_children dr self chs r s1))"
| "init_children dr self [] r s = s"
| "init_children dr self (child # rest) r s =
     (let (c, s1) = Field_init dr FieldCls child r s;
          s2 = store self ((heap s1 self)\<lparr>children := children (heap s1 self) @ [c]\<rparr>) s1
      in init_children dr self rest r s2)"
  by pat_completeness auto
termination
  by (relation "measure (\<lambda>x. case x of
        Inl (_, _, sch, _, _) \<Rightarrow> size sch
      | Inr (_, _, chs, _, _) \<Rightarrow> size_list size chs)") auto

text \<open>
  \<^verbatim>\<open>Field.__getitem__\<close>: the loop over \<^verbatim>\<open>self.children\<close> returns the first child whose
  \<^verbatim>\<open>name\<close> equals the key and raises \<^verbatim>\<open>KeyError(name)\<close> after the loop.
\<close>

datatype exn =
    Invalid invalid
  | KeyError string
  | ValidationFailure addr struct invalid
  | Error string

fun find_child :: "(addr \<Rightarrow> field_obj) \<Rightarrow> addr list \<Rightarrow> string \<Rightarrow> exn + addr" where
  "find_child h [] nm = Inl (KeyError nm)"
| "find_child h (child # rest) nm =
     (if name (h child) = nm then Inr child else find_child h rest nm)"

definition getitem :: "state \<Rightarrow> addr \<Rightarrow> string \<Rightarrow> exn + addr" where
  "getitem s self nm = find_child (heap s) (children (heap s self)) nm"

text \<open>
  Modelled from the spec: the decorator \<^verbatim>\<open>decorator.reify\<close> (the module
  \<^verbatim>\<open>deform/decorator.py\<close> is not among the sources). The spec describes a lazy memoized
  attribute, an optional value per attribute, computed on first access, cached
  thereafter, and overridable by assignment before the first access; the docstring of
  \<^verbatim>\<open>Field.widget\<close> says the same. Reading the attribute returns the instance's entry
  when there is one; otherwise the wrapped function runs and its result is stored on the
  instance.
\<close>

definition reify ::
  "(field_obj \<Rightarrow> 'a option) \<Rightarrow> ('a \<Rightarrow> field_obj \<Rightarrow> field_obj) \<Rightarrow> (addr \<Rightarrow> state \<Rightarrow> 'a \<times> state)
     \<Rightarrow> addr \<Rightarrow> state \<Rightarrow> 'a \<times> state" where
  "reify entry assign wrapped self s =
     (case entry (heap s self) of
        Some v \<Rightarrow> (v, s)
      | None \<Rightarrow> (let (v, s1) = wrapped self s in (v, store self (assign v (heap s1 self)) s1)))"

text \<open>
  The body of \<^verbatim>\<open>Field.widget\<close>: \<^verbatim>\<open>getattr(self.schema.typ, 'default_widget_maker', None)\<close>,
  the fallback \<^verbatim>\<open>widget.TextInputWidget\<close>, and the call \<^verbatim>\<open>widget_maker()\<close>.
\<close>

definition Field_widget :: "addr \<Rightarrow> state \<Rightarrow> widget \<times> state" where
  "Field_widget self s =
     (let widget_maker =
            (case default_widget_maker (styp (schema (heap s self))) of
               None \<Rightarrow> TextInputWidget
             | Some m \<Rightarrow> m)
      in instantiate widget_maker (log (Widget_function self) s))"

text \<open>The body of \<^verbatim>\<open>Field.default\<close>: \<^verbatim>\<open>self.schema.sdefault\<close>.\<close>

definition Field_default :: "addr \<Rightarrow> state \<Rightarrow> struct \<times> state" where
  "Field_default self s = (sdefault (schema (heap s self)), log (Default_function self) s)"

text \<open>Reading \<^verbatim>\<open>self.widget\<close> and \<^verbatim>\<open>self.default\<close>; assigning \<^verbatim>\<open>field.widget = w\<close>.\<close>

definition get_widget :: "addr \<Rightarrow> state \<Rightarrow> widget \<times> state" where
  "get_widget = reify widget (\<lambda>v obj. obj\<lparr>widget := Some v\<rparr>) Field_widget"

definition get_default :: "addr \<Rightarrow> state \<Rightarrow> struct \<times> state" where
  "get_default = reify default (\<lambda>v obj. obj\<lparr>default := Some v\<rparr>) Field_default"

definition set_widget :: "addr \<Rightarrow> widget \<Rightarrow> state \<Rightarrow> state" where
  "set_widget self w s = store self ((heap s self)\<lparr>widget := Some w\<rparr>) s"

section \<open>Form\<close>

text \<open>An entry of \<^verbatim>\<open>buttons\<close> is a string (\<^verbatim>\<open>isinstance(button, basestring)\<close>) or a
  \<^verbatim>\<open>Button\<close> object.\<close>

datatype button_arg = Str pystr | Obj button

text \<open>The loop of \<^verbatim>\<open>Form.__init__\<close> that fills \<^verbatim>\<open>_buttons\<close>.\<close>

fun convert_buttons :: "unicode_db \<Rightarrow> button_arg list \<Rightarrow> button list \<Rightarrow> button list" where
  "convert_buttons U [] acc = acc"
| "convert_buttons U (b # rest) acc =
     convert_buttons U rest
       (acc @ [case b of Str nm \<Rightarrow> Button_init U (Some nm) None None | Obj x \<Rightarrow> x])"

text \<open>
  \<^verbatim>\<open>Form.__init__(self, schema, renderer=None, action='.', method='POST', buttons=())\<close>.
  For \<open>action\<close>, \<open>method\<close> and \<open>buttons\<close>, \<open>None\<close> is the omitted argument. \<open>U\<close> is the
  interpreter's Unicode database, which \<^verbatim>\<open>Button(button)\<close> consults when the entry is a
  unicode string.
\<close>

definition Form_init ::
  "unicode_db \<Rightarrow> renderer \<Rightarrow> schema \<Rightarrow> renderer option \<Rightarrow> string option \<Rightarrow> string option
     \<Rightarrow> button_arg list option \<Rightarrow> state \<Rightarrow> addr \<times> state" where
  "Form_init U dr sch r action_arg method_arg buttons_arg s =
     (let act = (case action_arg of None \<Rightarrow> ''.'' | Some a \<Rightarrow> a);
          meth = (case method_arg of None \<Rightarrow> ''POST'' | Some m \<Rightarrow> m);
          btns = (case buttons_arg of None \<Rightarrow> [] | Some bs \<Rightarrow> bs);
          (self, s1) = Field_init dr FormCls sch r s;
          bl = convert_buttons U btns [];
          s2 = store self ((heap s1 self)\<lparr>action := Some act\<rparr>) s1;
          s3 = store self ((heap s2 self)\<lparr>http_method := Some meth\<rparr>) s2;
          s4 = store self ((heap s3 self)\<lparr>buttons := Some bl\<rparr>) s3;
          (w, s5) = instantiate FormWidget s4
      in (self, store self ((heap s5 self)\<lparr>widget := Some w\<rparr>) s5))"

section \<open>Clone\<close>

text \<open>\<^verbatim>\<open>self.__class__(self.schema)\<close>: the constructor of the class, every other argument
  omitted.\<close>

definition construct :: "unicode_db \<Rightarrow> renderer \<Rightarrow> cls \<Rightarrow> schema \<Rightarrow> state \<Rightarrow> addr \<times> state" where
  "construct U dr c sch s =
     (case c of
        FieldCls \<Rightarrow> Field_init dr FieldCls sch None s
      | FormCls \<Rightarrow> Form_init U dr sch None None None None s)"

text \<open>
  \<^verbatim>\<open>cloned.__dict__.update(self.__dict__)\<close>: every key of the source's instance dictionary
  is written to the clone; a key the source does not have keeps the clone's entry.
\<close>

definition keep :: "'a option \<Rightarrow> 'a option \<Rightarrow> 'a option" where
  "keep own new = (case new of None \<Rightarrow> own | Some v \<Rightarrow> Some v)"

definition dict_update :: "field_obj \<Rightarrow> field_obj \<Rightarrow> field_obj" where
  "dict_update cloned self =
     cloned\<lparr>schema := schema self, renderer := renderer self, name := name self,
            title := title self, description := description self,
            required := required self, children := children self,
            widget := keep (widget cloned) (widget self),
            default := keep (default cloned) (default self),
            error := keep (error cloned) (error self),
            action := keep (action cloned) (action self),
            http_method := keep (http_method cloned) (http_method self),
            buttons := keep (buttons cloned) (buttons self)\<rparr>"

text \<open>The list comprehension: the calls run in list order, each in the store the
  previous one left.\<close>

fun map_state :: "('a \<Rightarrow> 's \<Rightarrow> ('b \<times> 's) option) \<Rightarrow> 'a list \<Rightarrow> 's \<Rightarrow> ('b list \<times> 's) option" where
  "map_state f [] s = Some ([], s)"
| "map_state f (x # xs) s =
     (case f x s of
        None \<Rightarrow> None
      | Some (y, s1) \<Rightarrow>
          (case map_state f xs s1 of None \<Rightarrow> None | Some (ys, s2) \<Rightarrow> Some (y # ys, s2)))"

text \<open>
  \<^verbatim>\<open>Field.clone\<close>. The recursion follows references of the store, so it carries fuel, the
  depth of calls Python allows; \<open>None\<close> is a call that does not return within it.
  \<^verbatim>\<open>self.children\<close> is read when the comprehension starts; the calls it makes only
  allocate and write new objects.
\<close>

primrec clone :: "unicode_db \<Rightarrow> renderer \<Rightarrow> nat \<Rightarrow> addr \<Rightarrow> state \<Rightarrow> (addr \<times> state) option" where
  "clone U dr 0 self s = None"
| "clone U dr (Suc fuel) self s =
     (let (cloned, s1) = construct U dr (cls (heap s self)) (schema (heap s self)) s;
          s2 = store cloned (dict_update (heap s1 cloned) (heap s1 self)) s1
      in case map_state (clone U dr fuel) (children (heap s2 self)) s2 of
           None \<Rightarrow> None
         | Some (cs, s3) \<Rightarrow> Some (cloned, store cloned ((heap s3 cloned)\<lparr>children := cs\<rparr>) s3))"

section \<open>Validation\<close>

text \<open>
  The collaborators of \<^verbatim>\<open>Field.validate\<close>: \<^verbatim>\<open>peppercorn.parse\<close>, the widget's
  \<^verbatim>\<open>deserialize\<close> and \<^verbatim>\<open>handle_error\<close> (they receive the field and may change the
  store, also when they raise), and the schema node's \<^verbatim>\<open>deserialize\<close>. \<open>Inl\<close> is a raised
  exception.
\<close>

record collab =
  parse :: "fields \<Rightarrow> exn + struct"
  w_deserialize :: "widget \<Rightarrow> addr \<Rightarrow> struct \<Rightarrow> state \<Rightarrow> (exn + struct) \<times> state"
  w_handle_error :: "widget \<Rightarrow> addr \<Rightarrow> invalid \<Rightarrow> state \<Rightarrow> (exn + unit) \<times> state"
  s_deserialize :: "schema \<Rightarrow> struct \<Rightarrow> exn + struct"

text \<open>A call to a collaborator: the log gains the call, whatever the callee does.\<close>

definition call :: "event \<Rightarrow> (state \<Rightarrow> 'a \<times> state) \<Rightarrow> state \<Rightarrow> 'a \<times> state" where
  "call ev f s = (let (r, s1) = f s in (r, s1\<lparr>trace := trace s @ [ev]\<rparr>))"

definition validate :: "collab \<Rightarrow> addr \<Rightarrow> fields \<Rightarrow> state \<Rightarrow> (exn + struct) \<times> state" where
  "validate C self flds s =
     (let s0 = log (Parse flds) s in
      case parse C flds of
        Inl x \<Rightarrow> (Inl x, s0)
      | Inr pstruct \<Rightarrow>
          (let (w, s1) = get_widget self s0;
               (r, s2) = call (Deserialize w self pstruct) (w_deserialize C w self pstruct) s1
           in case r of
                Inl x \<Rightarrow> (Inl x, s2)
              | Inr cstruct \<Rightarrow>
                  (let sch = schema (heap s2 self);
                       s3 = log (Schema_deserialize sch cstruct) s2
                   in case s_deserialize C sch cstruct of
                        Inr v \<Rightarrow> (Inr v, s3)
                      | Inl x \<Rightarrow>
                          (case x of
                             Invalid e \<Rightarrow>
                               (let (w', s4) = get_widget self s3;
                                    (r', s5) = call (Handle_error w' self e)
                                                 (w_handle_error C w' self e) s4
                                in case r' of
                                     Inl y \<Rightarrow> (Inl y, s5)
                                   | Inr u \<Rightarrow> (Inl (ValidationFailure self cstruct e), s5))
                           | _ \<Rightarrow> (Inl x, s3)))))"

section \<open>Reference definitions and example stores\<close>

text \<open>
  The spec's wording of the button title, "name with the first letter capitalized",
  taken literally: only the first character changes.
\<close>

fun first_letter_capitalized :: "unicode_db \<Rightarrow> pystr \<Rightarrow> pystr" where
  "first_letter_capitalized U (Bytes cs) =
     Bytes (case cs of [] \<Rightarrow> [] | c # r \<Rightarrow> upper_char c # r)"
| "first_letter_capitalized U (Unicode us) =
     Unicode (case us of [] \<Rightarrow> [] | c # r \<Rightarrow> uni_upper U c # r)"

text \<open>No character after the first is changed by lower-casing.\<close>

fun later_unchanged :: "unicode_db \<Rightarrow> pystr \<Rightarrow> bool" where
  "later_unchanged U (Bytes cs) = list_all (\<lambda>c. lower_char c = c) (tl cs)"
| "later_unchanged U (Unicode us) = list_all (\<lambda>c. uni_lower U c = c) (tl us)"

text \<open>
  An example of the two mappings, for the examples only: the letters of ASCII and of
  Latin-1 (U+00C0 to U+00DE and U+00E0 to U+00FE without the two operators), every other
  code unit unchanged.
\<close>

definition latin1 :: unicode_db where
  "latin1 =
     \<lparr>uni_upper = (\<lambda>c. if (97 \<le> c \<and> c \<le> 122) \<or> (224 \<le> c \<and> c \<le> 254 \<and> c \<noteq> 247)
                         then c - 32 else c),
      uni_lower = (\<lambda>c. if (65 \<le> c \<and> c \<le> 90) \<or> (192 \<le> c \<and> c \<le> 222 \<and> c \<noteq> 215)
                         then c + 32 else c)\<rparr>"

text \<open>
  A field tree that mirrors a schema tree: the object at \<open>a\<close> is allocated, has class \<open>c\<close>,
  references the schema node, carries its \<open>name\<close>, \<open>title\<close>, \<open>description\<close> and
  \<open>required\<close> and the renderer \<open>rr\<close>, and its \<open>children\<close> match the schema children one
  by one, in order, each a \<^verbatim>\<open>Field\<close> allocated after its parent that mirrors its schema
  child with the same renderer. In particular the two lists of children have the same
  length at every node.
\<close>

fun mirrors :: "state \<Rightarrow> renderer \<Rightarrow> cls \<Rightarrow> addr \<Rightarrow> schema \<Rightarrow> bool" where
  "mirrors s rr c a (SchemaNode n t d rq ty sd chs) =
     (a < next_addr s \<and>
      cls (heap s a) = c \<and> schema (heap s a) = SchemaNode n t d rq ty sd chs \<and>
      name (heap s a) = n \<and> title (heap s a) = t \<and> description (heap s a) = d \<and>
      required (heap s a) = rq \<and> renderer (heap s a) = rr \<and>
      list_all2 (\<lambda>child sc. a < child \<and> mirrors s rr FieldCls child sc)
        (children (heap s a)) chs)"

text \<open>An object whose optional attributes are all absent.\<close>

definition bare :: "field_obj \<Rightarrow> bool" where
  "bare obj =
     (widget obj = None \<and> default obj = None \<and> error obj = None \<and>
      action obj = None \<and> http_method obj = None \<and> buttons obj = None)"

text \<open>A renderer object that is false in a boolean context (for instance a callable
  registry with \<^verbatim>\<open>__len__\<close> that is still empty).\<close>

definition falsy_renderer :: renderer where
  "falsy_renderer = Renderer ''registry'' False"

text \<open>An empty store, a default renderer, and small schemas for the examples.\<close>

definition no_object :: field_obj where
  "no_object =
     \<lparr>cls = FieldCls, schema = SchemaNode [] [] [] False (Typ [] None) SNone [],
      renderer = Renderer [] True, name = [], title = [], description = [],
      required = False, children = [], widget = None, default = None, error = None,
      action = None, http_method = None, buttons = None\<rparr>"

definition empty_store :: state where
  "empty_store = \<lparr>heap = (\<lambda>_. no_object), next_addr = 0, next_wid = 0, trace = []\<rparr>"

definition zpt :: renderer where
  "zpt = Renderer ''default_renderer'' True"

definition leaf :: "string \<Rightarrow> schema" where
  "leaf nm = SchemaNode nm (capitalize_str nm) [] True (Typ ''String'' None) (SStr []) []"

text \<open>A mapping schema whose two children carry the same name.\<close>

definition twins :: schema where
  "twins = SchemaNode ''root'' ''Root'' [] True (Typ ''Mapping'' None) SNone [leaf ''x'', leaf ''x'']"

definition twins_store :: state where
  "twins_store = snd (Field_init zpt FieldCls twins None empty_store)"

text \<open>A schema with a grandchild: \<open>root\<close> has the children \<open>group\<close> and \<open>x\<close>, and
  \<open>group\<close> has the child \<open>deep\<close>.\<close>

definition nested :: schema where
  "nested =
     SchemaNode ''root'' ''Root'' [] True (Typ ''Mapping'' None) SNone
       [SchemaNode ''group'' ''Group'' [] True (Typ ''Mapping'' None) SNone [leaf ''deep''],
        leaf ''x'']"

definition nested_store :: state where
  "nested_store = snd (Field_init zpt FieldCls nested None empty_store)"

text \<open>A schema node whose type names a widget factory.\<close>

definition dated :: schema where
  "dated =
     SchemaNode ''when'' ''When'' [] True
       (Typ ''Date'' (Some (TypeWidget ''DateInputWidget''))) (SStr ''2010-01-01'') []"

definition dated_store :: state where
  "dated_store = snd (Field_init zpt FieldCls dated None empty_store)"

text \<open>
  The spec's wording for the buttons of a form: each string entry becomes a \<^verbatim>\<open>Button\<close>
  of that name with the defaulted title and value; a \<^verbatim>\<open>Button\<close> entry is kept.
\<close>

fun as_button :: "unicode_db \<Rightarrow> button_arg \<Rightarrow> button" where
  "as_button U (Str nm) = Button nm (capitalize U nm) nm"
| "as_button U (Obj b) = b"

text \<open>\<^verbatim>\<open>Form(nested, buttons=["submit", "cancel"])\<close> in the empty store.\<close>

definition form_store :: state where
  "form_store =
     snd (Form_init latin1 zpt nested None None None (Some [Str (Bytes ''submit''), Str (Bytes ''cancel'')])
            empty_store)"

text \<open>
  Example collaborators. \<open>echo\<close>: the parser wraps the submitted pairs in a mapping, the
  widget passes the pstruct on and records an error on the field, and the schema rejects
  the empty mapping. \<open>broken_parser\<close> and \<open>broken_schema\<close> raise an exception that is not
  a validation error.
\<close>

definition echo :: collab where
  "echo =
     \<lparr>parse = (\<lambda>flds. Inr (SMap (map (\<lambda>(k, v). (k, SStr v)) flds))),
      w_deserialize = (\<lambda>w f p s. (Inr p, s)),
      w_handle_error = (\<lambda>w f e s. (Inr (), store f ((heap s f)\<lparr>error := Some e\<rparr>) s)),
      s_deserialize = (\<lambda>sch c. if c = SMap [] then Inl (Invalid (InvalidError ''Required''))
                                 else Inr c)\<rparr>"

definition color_store :: state where
  "color_store = snd (Field_init zpt FieldCls (leaf ''color'') None empty_store)"

definition broken_parser :: collab where
  "broken_parser = echo\<lparr>parse := (\<lambda>flds. Inl (Error ''ValueError: unbalanced markers''))\<rparr>"

definition broken_schema :: collab where
  "broken_schema = echo\<lparr>s_deserialize := (\<lambda>sch c. Inl (Error ''TypeError''))\<rparr>"

text \<open>
  An object that still has every attribute its constructor set: a \<^verbatim>\<open>Form\<close> has
  \<^verbatim>\<open>widget\<close>, \<^verbatim>\<open>action\<close>, \<^verbatim>\<open>method\<close> and \<^verbatim>\<open>buttons\<close> (nothing was deleted from it).
\<close>

definition has_own :: "field_obj \<Rightarrow> bool" where
  "has_own obj =
     (cls obj = FormCls \<longrightarrow>
        widget obj \<noteq> None \<and> action obj \<noteq> None \<and> http_method obj \<noteq> None \<and>
        buttons obj \<noteq> None)"

text \<open>
  The objects reachable from \<open>a\<close> through \<open>children\<close> within depth \<open>k\<close> are allocated and
  have their constructor's attributes, and no path is longer than \<open>k\<close>.
\<close>

primrec wf_tree :: "nat \<Rightarrow> state \<Rightarrow> addr \<Rightarrow> bool" where
  "wf_tree 0 s a = False"
| "wf_tree (Suc k) s a =
     (a < next_addr s \<and> has_own (heap s a) \<and> list_all (wf_tree k s) (children (heap s a)))"

text \<open>Two objects agree on the class and on every attribute but \<open>children\<close>.\<close>

definition same_attrs :: "field_obj \<Rightarrow> field_obj \<Rightarrow> bool" where
  "same_attrs obj obj' =
     (cls obj' = cls obj \<and> schema obj' = schema obj \<and> renderer obj' = renderer obj \<and>
      name obj' = name obj \<and> title obj' = title obj \<and> description obj' = description obj \<and>
      required obj' = required obj \<and> widget obj' = widget obj \<and> default obj' = default obj \<and>
      error obj' = error obj \<and> action obj' = action obj \<and>
      http_method obj' = http_method obj \<and> buttons obj' = buttons obj)"

text \<open>
  \<open>c\<close> in the store \<open>s'\<close> is a clone of \<open>a\<close> in the store \<open>s\<close>: a new object (allocated
  after \<open>s\<close>) with the same class and attributes, whose children are, one by one and in
  order, clones of the children of \<open>a\<close>.
\<close>

primrec is_clone :: "nat \<Rightarrow> state \<Rightarrow> state \<Rightarrow> addr \<Rightarrow> addr \<Rightarrow> bool" where
  "is_clone 0 s s' a c = False"
| "is_clone (Suc k) s s' a c =
     (next_addr s \<le> c \<and> c < next_addr s' \<and> same_attrs (heap s a) (heap s' c) \<and>
      list_all2 (is_clone k s s') (children (heap s a)) (children (heap s' c)))"

text \<open>The tree of \<open>nested\<close> after the widget of the field \<open>deep\<close> has been read.\<close>

definition resolved_store :: state where
  "resolved_store = snd (get_widget 2 nested_store)"

section \<open>Button defaults\<close>

lemma capitalize_submit: "capitalize_str ''submit'' = ''Submit''"
  by code_simp

lemma capitalize_tail_lower:
  "later_unchanged U nm \<Longrightarrow> capitalize U nm = first_letter_capitalized U nm"
proof (cases nm)
  case (Bytes cs)
  assume "later_unchanged U nm"
  with Bytes show ?thesis
    by (cases cs) (simp_all add: list_all_iff map_idI)
next
  case (Unicode us)
  assume "later_unchanged U nm"
  with Unicode show ?thesis
    by (cases us) (simp_all add: list_all_iff map_idI)
qed

text \<open>
  C8, as stated, at a name with a capital inside: \<^verbatim>\<open>Button("goNow")\<close> has the title
  \<^verbatim>\<open>"Gonow"\<close>, which is not the name with its first letter capitalized (\<^verbatim>\<open>"GoNow"\<close>).
\<close>

theorem Button_title_counterexample:
  "btitle (Button_init latin1 (Some (Bytes ''goNow'')) None None) = Bytes ''Gonow'' \<and>
   first_letter_capitalized latin1 (Bytes ''goNow'') = Bytes ''GoNow'' \<and>
   btitle (Button_init latin1 (Some (Bytes ''goNow'')) None None) \<noteq>
     first_letter_capitalized latin1 (Bytes ''goNow'')"
proof -
  have "capitalize_str ''goNow'' = ''Gonow''"
    by code_simp
  moreover have "upper_char CHR ''g'' = CHR ''G''"
    by code_simp
  ultimately show ?thesis
    by (simp add: Button_init_def Let_def del: capitalize_str.simps)
qed

text \<open>
  C8 (amended): for every name, a byte string or a unicode string, \<^verbatim>\<open>Button(name)\<close> keeps
  the name, its value defaults to the name, and its title defaults to
  \<^verbatim>\<open>name.capitalize()\<close>: the first character upper-cased and every later character
  lower-cased, by the ASCII mappings for a byte string and by the mappings of the Unicode
  database for a unicode string. That is the name with its first letter capitalized
  whenever lower-casing changes no later character. \<^verbatim>\<open>Button()\<close> is named \<^verbatim>\<open>submit\<close>;
  a title and a value that are passed are kept as they are.
\<close>

theorem Button_defaults:
  "bname (Button_init U (Some nm) t v) = nm \<and>
   bvalue (Button_init U (Some nm) t None) = nm \<and>
   btitle (Button_init U (Some (Bytes cs)) None v) =
     Bytes (case cs of [] \<Rightarrow> [] | c # r \<Rightarrow> upper_char c # map lower_char r) \<and>
   btitle (Button_init U (Some (Unicode us)) None v) =
     Unicode (case us of [] \<Rightarrow> [] | c # r \<Rightarrow> uni_upper U c # map (uni_lower U) r) \<and>
   (later_unchanged U nm \<longrightarrow>
      btitle (Button_init U (Some nm) None v) = first_letter_capitalized U nm) \<and>
   btitle (Button_init U n (Some t') v) = t' \<and>
   bvalue (Button_init U n t (Some v')) = v' \<and>
   Button_init U None None None =
     Button (Bytes ''submit'') (Bytes ''Submit'') (Bytes ''submit'') \<and>
   Button_init U (Some (Bytes ''submit'')) None None =
     Button (Bytes ''submit'') (Bytes ''Submit'') (Bytes ''submit'') \<and>
   Button_init U (Some (Bytes ''go'')) (Some (Bytes ''Go!'')) (Some (Bytes ''1'')) =
     Button (Bytes ''go'') (Bytes ''Go!'') (Bytes ''1'')"
proof -
  have "btitle (Button_init U (Some (Bytes cs)) None v) =
      Bytes (case cs of [] \<Rightarrow> [] | c # r \<Rightarrow> upper_char c # map lower_char r)"
    by (cases cs) (simp_all add: Button_init_def Let_def)
  moreover have "btitle (Button_init U (Some (Unicode us)) None v) =
      Unicode (case us of [] \<Rightarrow> [] | c # r \<Rightarrow> uni_upper U c # map (uni_lower U) r)"
    by (cases us) (simp_all add: Button_init_def Let_def)
  moreover have "later_unchanged U nm \<longrightarrow>
      btitle (Button_init U (Some nm) None v) = first_letter_capitalized U nm"
    using capitalize_tail_lower [of U nm] by (simp add: Button_init_def Let_def)
  moreover have "Button_init U None None None =
      Button (Bytes ''submit'') (Bytes ''Submit'') (Bytes ''submit'')"
    by (simp add: Button_init_def Let_def capitalize_submit del: capitalize_str.simps)
  moreover have "Button_init U (Some (Bytes ''submit'')) None None =
      Button (Bytes ''submit'') (Bytes ''Submit'') (Bytes ''submit'')"
    by (simp add: Button_init_def Let_def capitalize_submit del: capitalize_str.simps)
  moreover have "bname (Button_init U (Some nm) t v) = nm"
    and "bvalue (Button_init U (Some nm) t None) = nm"
    and "btitle (Button_init U n (Some t') v) = t'"
    and "bvalue (Button_init U n t (Some v')) = v'"
    and "Button_init U (Some (Bytes ''go'')) (Some (Bytes ''Go!'')) (Some (Bytes ''1'')) =
      Button (Bytes ''go'') (Bytes ''Go!'') (Bytes ''1'')"
    by (simp_all add: Button_init_def Let_def)
  ultimately show ?thesis
    by blast
qed

theorem Button_defaults_witness:
  "later_unchanged latin1 (Bytes ''submit'') \<and>
   btitle (Button_init latin1 (Some (Bytes ''submit'')) None None) =
     first_letter_capitalized latin1 (Bytes ''submit'') \<and>
   first_letter_capitalized latin1 (Bytes ''submit'') = Bytes ''Submit'' \<and>
   btitle (Button_init latin1 (Some (Unicode [233, 99, 79, 76, 69])) None None) =
     Unicode [201, 99, 111, 108, 101] \<and>
   later_unchanged latin1 (Unicode [233, 99, 111, 108, 101]) \<and>
   btitle (Button_init latin1 (Some (Unicode [233, 99, 111, 108, 101])) None None) =
     first_letter_capitalized latin1 (Unicode [233, 99, 111, 108, 101]) \<and>
   first_letter_capitalized latin1 (Unicode [233, 99, 111, 108, 101]) =
     Unicode [201, 99, 111, 108, 101]"
proof -
  have tail: "later_unchanged latin1 (Bytes ''submit'')"
    by code_simp
  have cap: "first_letter_capitalized latin1 (Bytes ''submit'') = Bytes ''Submit''"
    by code_simp
  have utail: "later_unchanged latin1 (Unicode [233, 99, 111, 108, 101])"
    by (simp add: latin1_def)
  have ucap: "first_letter_capitalized latin1 (Unicode [233, 99, 111, 108, 101]) =
      Unicode [201, 99, 111, 108, 101]"
    by (simp add: latin1_def)
  have a: "btitle (Button_init latin1 (Some (Bytes ''submit'')) None None) =
      first_letter_capitalized latin1 (Bytes ''submit'')"
    using Button_defaults [where U = latin1 and nm = "Bytes ''submit''" and v = None] tail
    by blast
  have b: "btitle (Button_init latin1 (Some (Unicode [233, 99, 79, 76, 69])) None None) =
      Unicode [201, 99, 111, 108, 101]"
    using Button_defaults [where U = latin1 and us = "[233, 99, 79, 76, 69]" and v = None]
    by (simp add: latin1_def)
  have c: "btitle (Button_init latin1 (Some (Unicode [233, 99, 111, 108, 101])) None None) =
      first_letter_capitalized latin1 (Unicode [233, 99, 111, 108, 101])"
    using Button_defaults [where U = latin1 and nm = "Unicode [233, 99, 111, 108, 101]"
        and v = None] utail
    by blast
  from tail cap utail ucap a b c show ?thesis
    by simp
qed

section \<open>Lookup of a child by name\<close>

lemma find_child_first:
  "(find_child h cs nm = Inr c) =
     (\<exists>i < length cs. cs ! i = c \<and> name (h c) = nm \<and> (\<forall>j < i. name (h (cs ! j)) \<noteq> nm))"
proof (induction cs)
  case Nil
  then show ?case by simp
next
  case (Cons a cs)
  show ?case
  proof (cases "name (h a) = nm")
    case True
    have "(\<exists>i < length (a # cs). (a # cs) ! i = c \<and> name (h c) = nm \<and>
            (\<forall>j < i. name (h ((a # cs) ! j)) \<noteq> nm)) = (a = c)"
    proof
      assume "\<exists>i < length (a # cs). (a # cs) ! i = c \<and> name (h c) = nm \<and>
                (\<forall>j < i. name (h ((a # cs) ! j)) \<noteq> nm)"
      then obtain i where i: "(a # cs) ! i = c" "\<forall>j < i. name (h ((a # cs) ! j)) \<noteq> nm"
        by blast
      have "i = 0"
      proof (rule ccontr)
        assume "i \<noteq> 0"
        then have "0 < i" by simp
        with i(2) have "name (h ((a # cs) ! 0)) \<noteq> nm" by blast
        with True show False by simp
      qed
      with i(1) show "a = c" by simp
    next
      assume "a = c"
      with True show "\<exists>i < length (a # cs). (a # cs) ! i = c \<and> name (h c) = nm \<and>
                (\<forall>j < i. name (h ((a # cs) ! j)) \<noteq> nm)"
        by (intro exI [of _ 0]) simp
    qed
    with True show ?thesis by simp
  next
    case False
    have "(\<exists>i < length (a # cs). (a # cs) ! i = c \<and> name (h c) = nm \<and>
            (\<forall>j < i. name (h ((a # cs) ! j)) \<noteq> nm))
        = (\<exists>i < length cs. cs ! i = c \<and> name (h c) = nm \<and>
            (\<forall>j < i. name (h (cs ! j)) \<noteq> nm))"
      (is "?L = ?R")
    proof
      assume ?L
      then obtain i where i: "i < length (a # cs)" "(a # cs) ! i = c" "name (h c) = nm"
        "\<forall>j < i. name (h ((a # cs) ! j)) \<noteq> nm" by blast
      with False have "i \<noteq> 0" by (cases i) auto
      then obtain k where k: "i = Suc k" by (cases i) auto
      with i have "k < length cs" "cs ! k = c" by auto
      moreover have "\<forall>j < k. name (h (cs ! j)) \<noteq> nm"
      proof (intro allI impI)
        fix j assume "j < k"
        then have "Suc j < i" using k by simp
        with i(4) have "name (h ((a # cs) ! Suc j)) \<noteq> nm" by blast
        then show "name (h (cs ! j)) \<noteq> nm" by simp
      qed
      ultimately show ?R using i(3) by blast
    next
      assume ?R
      then obtain i where i: "i < length cs" "cs ! i = c" "name (h c) = nm"
        "\<forall>j < i. name (h (cs ! j)) \<noteq> nm" by blast
      have "\<forall>j < Suc i. name (h ((a # cs) ! j)) \<noteq> nm"
      proof (intro allI impI)
        fix j assume "j < Suc i"
        then show "name (h ((a # cs) ! j)) \<noteq> nm"
          using False i(4) by (cases j) auto
      qed
      with i show ?L by (intro exI [of _ "Suc i"]) auto
    qed
    with False Cons.IH show ?thesis by simp
  qed
qed

lemma find_child_error:
  "(find_child h cs nm = Inl e) = (e = KeyError nm \<and> (\<forall>c \<in> set cs. name (h c) \<noteq> nm))"
  by (induction cs) auto

lemma find_child_found:
  "\<exists>c \<in> set cs. name (h c) = nm \<Longrightarrow> \<exists>c \<in> set cs. find_child h cs nm = Inr c \<and> name (h c) = nm"
  by (induction cs) auto

lemma twins_store_eval:
  "children (heap twins_store 0) = [1, 2] \<and> name (heap twins_store 1) = ''x'' \<and>
   name (heap twins_store 2) = ''x'' \<and> name (heap twins_store 0) = ''root''"
  by (simp add: twins_store_def twins_def leaf_def empty_store_def store_def)

lemma nested_store_eval:
  "children (heap nested_store 0) = [1, 3] \<and> children (heap nested_store 1) = [2] \<and>
   name (heap nested_store 1) = ''group'' \<and> name (heap nested_store 2) = ''deep'' \<and>
   name (heap nested_store 3) = ''x''"
  by (simp add: nested_store_def nested_def leaf_def empty_store_def store_def)

text \<open>
  C5, as stated, at a field with two children of one name (the schema \<open>twins\<close>): the second
  child is a child of the field, yet looking up its name returns the first child, not it.
\<close>

theorem getitem_own_name_counterexample:
  "2 \<in> set (children (heap twins_store 0)) \<and>
   getitem twins_store 0 (name (heap twins_store 2)) = Inr 1 \<and>
   getitem twins_store 0 (name (heap twins_store 2)) \<noteq> Inr 2"
  using twins_store_eval by (simp add: getitem_def)

text \<open>
  C5 (amended): \<^verbatim>\<open>field[name]\<close> returns a direct child of that name whenever one exists,
  and raises \<^verbatim>\<open>KeyError(name)\<close> exactly when no direct child has the name, whatever the
  grandchildren are called. \<^verbatim>\<open>field[child.name]\<close> returns that child for every child
  that is the first of its name among the children, hence for every child when the
  children's names are distinct.
\<close>

theorem getitem_direct_child:
  "((\<exists>c \<in> set (children (heap s self)). name (heap s c) = nm) \<longrightarrow>
      (\<exists>c \<in> set (children (heap s self)). getitem s self nm = Inr c \<and> name (heap s c) = nm)) \<and>
   ((getitem s self nm = Inl e) =
      (e = KeyError nm \<and> (\<forall>c \<in> set (children (heap s self)). name (heap s c) \<noteq> nm))) \<and>
   (\<forall>i < length (children (heap s self)).
      (\<forall>j < i. name (heap s (children (heap s self) ! j)) \<noteq>
                name (heap s (children (heap s self) ! i))) \<longrightarrow>
      getitem s self (name (heap s (children (heap s self) ! i))) =
        Inr (children (heap s self) ! i)) \<and>
   (distinct (map (\<lambda>c. name (heap s c)) (children (heap s self))) \<longrightarrow>
      (\<forall>c \<in> set (children (heap s self)). getitem s self (name (heap s c)) = Inr c))"
proof (intro conjI)
  show "(\<exists>c \<in> set (children (heap s self)). name (heap s c) = nm) \<longrightarrow>
      (\<exists>c \<in> set (children (heap s self)). getitem s self nm = Inr c \<and> name (heap s c) = nm)"
    using find_child_found [of "children (heap s self)" "heap s" nm]
    by (simp add: getitem_def)
  show "(getitem s self nm = Inl e) =
      (e = KeyError nm \<and> (\<forall>c \<in> set (children (heap s self)). name (heap s c) \<noteq> nm))"
    by (simp add: getitem_def find_child_error)
  show first: "\<forall>i < length (children (heap s self)).
      (\<forall>j < i. name (heap s (children (heap s self) ! j)) \<noteq>
                name (heap s (children (heap s self) ! i))) \<longrightarrow>
      getitem s self (name (heap s (children (heap s self) ! i))) =
        Inr (children (heap s self) ! i)"
    unfolding getitem_def find_child_first by blast
  show "distinct (map (\<lambda>c. name (heap s c)) (children (heap s self))) \<longrightarrow>
      (\<forall>c \<in> set (children (heap s self)). getitem s self (name (heap s c)) = Inr c)"
  proof (intro impI ballI)
    fix c
    assume d: "distinct (map (\<lambda>c. name (heap s c)) (children (heap s self)))"
      and c: "c \<in> set (children (heap s self))"
    from c obtain i where i: "i < length (children (heap s self))"
      "children (heap s self) ! i = c"
      by (auto simp: in_set_conv_nth)
    have "\<forall>j < i. name (heap s (children (heap s self) ! j)) \<noteq>
                name (heap s (children (heap s self) ! i))"
    proof (intro allI impI)
      fix j assume j: "j < i"
      with i(1) have len: "j < length (map (\<lambda>c. name (heap s c)) (children (heap s self)))"
        "i < length (map (\<lambda>c. name (heap s c)) (children (heap s self)))"
        by simp_all
      from nth_eq_iff_index_eq [OF d len] j
      have "map (\<lambda>c. name (heap s c)) (children (heap s self)) ! j \<noteq>
          map (\<lambda>c. name (heap s c)) (children (heap s self)) ! i"
        by simp
      moreover have "map (\<lambda>c. name (heap s c)) (children (heap s self)) ! j =
          name (heap s (children (heap s self) ! j))"
        "map (\<lambda>c. name (heap s c)) (children (heap s self)) ! i =
          name (heap s (children (heap s self) ! i))"
        using j i(1) by simp_all
      ultimately show "name (heap s (children (heap s self) ! j)) \<noteq>
                name (heap s (children (heap s self) ! i))"
        by simp
    qed
    with first i show "getitem s self (name (heap s c)) = Inr c"
      by blast
  qed
qed

theorem getitem_direct_child_witness:
  "3 \<in> set (children (heap nested_store 0)) \<and> name (heap nested_store 3) = ''x'' \<and>
   getitem nested_store 0 ''x'' = Inr 3 \<and>
   name (heap nested_store 2) = ''deep'' \<and> 2 \<in> set (children (heap nested_store 1)) \<and>
   getitem nested_store 0 ''deep'' = Inl (KeyError ''deep'') \<and>
   getitem nested_store 1 ''deep'' = Inr 2 \<and>
   distinct (map (\<lambda>c. name (heap nested_store c)) (children (heap nested_store 0))) \<and>
   getitem nested_store 0 (name (heap nested_store 1)) = Inr 1"
  using getitem_direct_child [of nested_store 0 "''x''" "KeyError ''x''"]
    getitem_direct_child [of nested_store 0 "''deep''" "KeyError ''deep''"]
    getitem_direct_child [of nested_store 1 "''deep''" "KeyError ''deep''"]
    nested_store_eval
  by (simp add: getitem_def)

text \<open>
  C9: \<^verbatim>\<open>field[name]\<close> returns a child exactly when that child stands at the first
  position of \<^verbatim>\<open>children\<close> whose name is the key; a later child of the same name is
  never the one returned.
\<close>

theorem getitem_first_match:
  "(getitem s self nm = Inr c) =
     (\<exists>i < length (children (heap s self)).
        children (heap s self) ! i = c \<and> name (heap s c) = nm \<and>
        (\<forall>j < i. name (heap s (children (heap s self) ! j)) \<noteq> nm))"
  by (simp add: getitem_def find_child_first)

theorem getitem_first_match_witness:
  "children (heap twins_store 0) = [1, 2] \<and> name (heap twins_store 1) = ''x'' \<and>
   name (heap twins_store 2) = ''x'' \<and> getitem twins_store 0 ''x'' = Inr 1 \<and>
   getitem twins_store 0 ''x'' \<noteq> Inr 2"
proof -
  have "\<exists>i < length (children (heap twins_store 0)).
        children (heap twins_store 0) ! i = 1 \<and> name (heap twins_store 1) = ''x'' \<and>
        (\<forall>j < i. name (heap twins_store (children (heap twins_store 0) ! j)) \<noteq> ''x'')"
    using twins_store_eval by (intro exI [of _ 0]) simp
  then have "getitem twins_store 0 ''x'' = Inr 1"
    using getitem_first_match [of twins_store 0 "''x''" 1] by simp
  with twins_store_eval show ?thesis by simp
qed

section \<open>Construction of the field tree\<close>

lemma mirrors_stable:
  "mirrors s rr c a sch \<Longrightarrow> next_addr s \<le> next_addr s' \<Longrightarrow>
   (\<And>b. a \<le> b \<Longrightarrow> b < next_addr s \<Longrightarrow> heap s' b = heap s b) \<Longrightarrow>
   mirrors s' rr c a sch"
proof (induction s rr c a sch rule: mirrors.induct)
  case (1 s rr c a n t d rq ty sd chs)
  from "1.prems"(1) have a: "a < next_addr s" by simp
  with "1.prems"(3) have eq: "heap s' a = heap s a" by simp
  from "1.prems"(1)
  have kids: "list_all2 (\<lambda>child sc. a < child \<and> mirrors s rr FieldCls child sc)
        (children (heap s a)) chs" by simp
  have "list_all2 (\<lambda>child sc. a < child \<and> mirrors s' rr FieldCls child sc)
        (children (heap s a)) chs"
    unfolding list_all2_conv_all_nth
  proof (intro conjI allI impI)
    show "length (children (heap s a)) = length chs"
      using kids by (rule list_all2_lengthD)
  next
    fix i assume i: "i < length (children (heap s a))"
    with kids show "a < children (heap s a) ! i"
      by (simp add: list_all2_conv_all_nth)
    from kids i have len: "i < length chs" and m: "a < children (heap s a) ! i"
      "mirrors s rr FieldCls (children (heap s a) ! i) (chs ! i)"
      by (simp_all add: list_all2_conv_all_nth)
    have "children (heap s a) ! i \<in> set (children (heap s a))" "chs ! i \<in> set chs"
      using i len by simp_all
    from "1.IH" [OF this m(2) "1.prems"(2)] "1.prems"(3) m(1)
    show "mirrors s' rr FieldCls (children (heap s a) ! i) (chs ! i)"
      by simp
  qed
  with "1.prems"(1,2) a eq show ?case by simp
qed

lemma Field_init_frame:
  "(case Field_init dr c sch r s of (a, s') \<Rightarrow>
      a = next_addr s \<and> next_addr s < next_addr s' \<and>
      (\<forall>b < next_addr s. heap s' b = heap s b) \<and>
      trace s' = trace s \<and> next_wid s' = next_wid s \<and>
      bare (heap s' a) \<and> mirrors s' (renderer_or r dr) c a sch)"
  and init_children_frame:
  "self < next_addr s \<Longrightarrow>
   (case init_children dr self chs r s of s' \<Rightarrow>
      next_addr s \<le> next_addr s' \<and>
      (\<forall>b < next_addr s. b \<noteq> self \<longrightarrow> heap s' b = heap s b) \<and>
      trace s' = trace s \<and> next_wid s' = next_wid s \<and>
      (\<exists>cs. heap s' self = (heap s self)\<lparr>children := children (heap s self) @ cs\<rparr> \<and>
         list_all2 (\<lambda>child sc. next_addr s \<le> child \<and>
                      mirrors s' (renderer_or r dr) FieldCls child sc) cs chs))"
proof (induction dr c sch r s and dr self chs r s rule: Field_init_init_children.induct)
  case (1 dr c n t d rq ty sd chs r s)
  define self where "self = next_addr s"
  define obj where "obj =
    \<lparr>cls = c, schema = SchemaNode n t d rq ty sd chs, renderer = renderer_or r dr,
     name = n, title = t, description = d, required = rq, children = [],
     widget = None, default = None, error = None,
     action = None, http_method = None, buttons = None\<rparr>"
  define s1 where "s1 = store self obj (s\<lparr>next_addr := Suc self\<rparr>)"
  define s' where "s' = init_children dr self chs r s1"
  have fi: "Field_init dr c (SchemaNode n t d rq ty sd chs) r s = (self, s')"
    by (simp add: self_def obj_def s1_def s'_def Let_def)
  have s1: "next_addr s1 = Suc self" "heap s1 self = obj" "trace s1 = trace s"
    "next_wid s1 = next_wid s" "\<And>b. b \<noteq> self \<Longrightarrow> heap s1 b = heap s b"
    by (simp_all add: s1_def store_def)
  have "self < next_addr s1" using s1 by simp
  from "1.IH" [OF self_def obj_def s1_def this]
  obtain cs where ih: "next_addr s1 \<le> next_addr s'"
    "\<forall>b < next_addr s1. b \<noteq> self \<longrightarrow> heap s' b = heap s1 b"
    "trace s' = trace s1" "next_wid s' = next_wid s1"
    "heap s' self = (heap s1 self)\<lparr>children := children (heap s1 self) @ cs\<rparr>"
    "list_all2 (\<lambda>child sc. next_addr s1 \<le> child \<and>
        mirrors s' (renderer_or r dr) FieldCls child sc) cs chs"
    by (auto simp: s'_def)
  have root: "heap s' self = obj\<lparr>children := cs\<rparr>"
    using ih(5) s1(2) by (simp add: obj_def)
  have kids: "list_all2 (\<lambda>child sc. self < child \<and>
      mirrors s' (renderer_or r dr) FieldCls child sc) cs chs"
    using ih(6) s1(1) by (auto elim!: list_all2_mono)
  have "mirrors s' (renderer_or r dr) c self (SchemaNode n t d rq ty sd chs)"
    using root kids ih(1) s1(1) by (simp add: obj_def)
  moreover have "bare (heap s' self)"
    using root by (simp add: bare_def obj_def)
  moreover have "\<forall>b < next_addr s. heap s' b = heap s b"
    using ih(2) s1(1,5) by (simp add: self_def)
  ultimately show ?case
    unfolding fi using ih(1,3,4) s1 by (simp add: self_def)
next
  case (2 dr self r s)
  then show ?case by simp
next
  case (3 dr self child rest r s)
  obtain c s1 where fi: "Field_init dr FieldCls child r s = (c, s1)"
    by (cases "Field_init dr FieldCls child r s")
  define s2 where
    "s2 = store self ((heap s1 self)\<lparr>children := children (heap s1 self) @ [c]\<rparr>) s1"
  define s' where "s' = init_children dr self rest r s2"
  have ic: "init_children dr self (child # rest) r s = s'"
    by (simp add: fi s2_def s'_def)
  from "3.IH"(1) fi have p: "c = next_addr s" "next_addr s < next_addr s1"
    "\<forall>b < next_addr s. heap s1 b = heap s b" "trace s1 = trace s" "next_wid s1 = next_wid s"
    "mirrors s1 (renderer_or r dr) FieldCls c child"
    by auto
  have s2: "next_addr s2 = next_addr s1" "trace s2 = trace s1" "next_wid s2 = next_wid s1"
    "\<And>b. b \<noteq> self \<Longrightarrow> heap s2 b = heap s1 b"
    "heap s2 self = (heap s1 self)\<lparr>children := children (heap s1 self) @ [c]\<rparr>"
    by (simp_all add: s2_def store_def)
  have self2: "self < next_addr s2" using "3.prems" p(2) s2(1) by simp
  from "3.IH"(2) [OF fi [symmetric] refl s2_def self2]
  obtain cs where ih: "next_addr s2 \<le> next_addr s'"
    "\<forall>b < next_addr s2. b \<noteq> self \<longrightarrow> heap s' b = heap s2 b"
    "trace s' = trace s2" "next_wid s' = next_wid s2"
    "heap s' self = (heap s2 self)\<lparr>children := children (heap s2 self) @ cs\<rparr>"
    "list_all2 (\<lambda>child sc. next_addr s2 \<le> child \<and>
        mirrors s' (renderer_or r dr) FieldCls child sc) cs rest"
    by (auto simp: s'_def)
  have self1: "heap s1 self = heap s self" using p(3) "3.prems" by simp
  have root: "heap s' self = (heap s self)\<lparr>children := children (heap s self) @ (c # cs)\<rparr>"
    using ih(5) s2(5) self1 by simp
  have "mirrors s' (renderer_or r dr) FieldCls c child"
  proof (rule mirrors_stable [OF p(6)])
    show "next_addr s1 \<le> next_addr s'" using ih(1) s2(1) by simp
  next
    fix b assume b: "c \<le> b" "b < next_addr s1"
    with p(1) "3.prems" have "b \<noteq> self" by simp
    with b ih(2) s2(1,4) show "heap s' b = heap s1 b" by simp
  qed
  then have kids: "list_all2 (\<lambda>child sc. next_addr s \<le> child \<and>
      mirrors s' (renderer_or r dr) FieldCls child sc) (c # cs) (child # rest)"
    using ih(6) p(1,2) s2(1) by (auto elim!: list_all2_mono)
  have "\<forall>b < next_addr s. b \<noteq> self \<longrightarrow> heap s' b = heap s b"
    using ih(2) s2(1,4) p(2,3) by simp
  with root kids ih(1,3,4) s2 p show ?case
    unfolding ic by (intro conjI exI [of _ "c # cs"]) simp_all
qed

lemma mirrors_length:
  "mirrors s rr c a sch \<Longrightarrow> length (children (heap s a)) = length (schildren sch)"
  by (cases sch) (auto dest: list_all2_lengthD)

lemma empty_store_eval:
  "next_addr empty_store = 0 \<and> next_wid empty_store = 0 \<and> trace empty_store = []"
  by (simp add: empty_store_def)

text \<open>
  C2, as stated, at a renderer that is false in a boolean context: the constructor is given
  that renderer, yet the field's renderer is the default one.
\<close>

theorem Field_renderer_counterexample:
  "renderer (heap (snd (Field_init zpt FieldCls (leaf ''x'') (Some falsy_renderer) empty_store))
      (fst (Field_init zpt FieldCls (leaf ''x'') (Some falsy_renderer) empty_store))) = zpt \<and>
   zpt \<noteq> falsy_renderer"
  by (simp add: leaf_def empty_store_def store_def renderer_or_def falsy_renderer_def zpt_def)

text \<open>
  C2 (amended): \<^verbatim>\<open>Field(schema, renderer)\<close> allocates a new object whose tree mirrors the
  schema tree: at every node the name, title, description and required flag are the
  schema node's, the children correspond one to one and in order to the schema children
  (so both lists have the same length at every node), and every node has the same
  renderer: the given one when one is given and it is true in a boolean context,
  otherwise the process-wide default. Objects that existed before are untouched.
\<close>

theorem Field_init_mirrors_schema:
  assumes "Field_init dr c sch r s = (a, s')"
  shows "a = next_addr s \<and>
    mirrors s' (case r of None \<Rightarrow> dr | Some x \<Rightarrow> if truthy x then x else dr) c a sch \<and>
    name (heap s' a) = sname sch \<and> title (heap s' a) = stitle sch \<and>
    description (heap s' a) = sdescription sch \<and> required (heap s' a) = srequired sch \<and>
    length (children (heap s' a)) = length (schildren sch) \<and>
    (\<forall>b < next_addr s. heap s' b = heap s b)"
proof -
  from Field_init_frame [where dr = dr and c = c and sch = sch and r = r and s = s] assms
  have f: "a = next_addr s" "\<forall>b < next_addr s. heap s' b = heap s b"
    "mirrors s' (renderer_or r dr) c a sch"
    by auto
  from f(3) have "name (heap s' a) = sname sch \<and> title (heap s' a) = stitle sch \<and>
    description (heap s' a) = sdescription sch \<and> required (heap s' a) = srequired sch"
    by (cases sch) simp
  with f mirrors_length [OF f(3)] show ?thesis
    by (simp add: renderer_or_def)
qed

theorem Field_init_mirrors_schema_witness:
  "mirrors nested_store zpt FieldCls 0 nested \<and>
   children (heap nested_store 0) = [1, 3] \<and> children (heap nested_store 1) = [2] \<and>
   name (heap nested_store 0) = ''root'' \<and> length (schildren nested) = 2"
proof -
  let ?r = "Field_init zpt FieldCls nested None empty_store"
  have "?r = (fst ?r, nested_store)"
    by (simp add: nested_store_def)
  note m = Field_init_mirrors_schema [OF this]
  have "fst ?r = next_addr empty_store"
    by (rule m [THEN conjunct1])
  moreover have "mirrors nested_store zpt FieldCls (fst ?r) nested"
    using m [THEN conjunct2, THEN conjunct1] by simp
  ultimately have "mirrors nested_store zpt FieldCls (next_addr empty_store) nested"
    by simp
  then have "mirrors nested_store zpt FieldCls 0 nested"
    by (simp add: empty_store_eval)
  moreover have "length (schildren nested) = 2"
    by (simp add: nested_def)
  moreover have "name (heap nested_store 0) = ''root''"
    by (simp add: nested_store_def nested_def leaf_def empty_store_def store_def)
  ultimately show ?thesis
    using nested_store_eval by simp
qed

section \<open>Lazy attributes\<close>

lemma get_widget_unresolved:
  assumes "widget (heap s self) = None"
  shows "get_widget self s =
    (Widget (case default_widget_maker (styp (schema (heap s self))) of
               None \<Rightarrow> TextInputWidget | Some m \<Rightarrow> m) (next_wid s),
     s\<lparr>heap := (heap s)(self := (heap s self)
          \<lparr>widget := Some (Widget (case default_widget_maker (styp (schema (heap s self))) of
                                    None \<Rightarrow> TextInputWidget | Some m \<Rightarrow> m) (next_wid s))\<rparr>),
       next_wid := Suc (next_wid s),
       trace := trace s @ [Widget_function self,
         Instantiated (Widget (case default_widget_maker (styp (schema (heap s self))) of
                                 None \<Rightarrow> TextInputWidget | Some m \<Rightarrow> m) (next_wid s))]\<rparr>)"
  using assms
  by (simp add: get_widget_def reify_def Field_widget_def instantiate_def log_def store_def
      Let_def)

lemma get_widget_resolved:
  "widget (heap s self) = Some w \<Longrightarrow> get_widget self s = (w, s)"
  by (simp add: get_widget_def reify_def)

lemma get_widget_caches:
  "widget (heap (snd (get_widget self s)) self) = Some (fst (get_widget self s))"
  by (cases "widget (heap s self)") (simp_all add: get_widget_unresolved get_widget_resolved)

lemma get_widget_again:
  "get_widget self (snd (get_widget self s)) = (fst (get_widget self s), snd (get_widget self s))"
  using get_widget_caches [of self s] by (rule get_widget_resolved)

lemma get_default_unresolved:
  assumes "default (heap s self) = None"
  shows "get_default self s =
    (sdefault (schema (heap s self)),
     s\<lparr>heap := (heap s)(self := (heap s self)
          \<lparr>default := Some (sdefault (schema (heap s self)))\<rparr>),
       trace := trace s @ [Default_function self]\<rparr>)"
  using assms
  by (simp add: get_default_def reify_def Field_default_def log_def store_def Let_def)

lemma get_default_resolved:
  "default (heap s self) = Some v \<Longrightarrow> get_default self s = (v, s)"
  by (simp add: get_default_def reify_def)

lemma get_default_caches:
  "default (heap (snd (get_default self s)) self) = Some (fst (get_default self s))"
  by (cases "default (heap s self)") (simp_all add: get_default_unresolved get_default_resolved)

lemma get_default_again:
  "get_default self (snd (get_default self s)) =
     (fst (get_default self s), snd (get_default self s))"
  using get_default_caches [of self s] by (rule get_default_resolved)

lemma dated_store_eval:
  "widget (heap dated_store 0) = None \<and> default (heap dated_store 0) = None \<and>
   schema (heap dated_store 0) = dated \<and> next_wid dated_store = 0 \<and> trace dated_store = []"
  by (simp add: dated_store_def dated_def empty_store_def store_def)

lemma nested_store_leaf_eval:
  "widget (heap nested_store 2) = None \<and> schema (heap nested_store 2) = leaf ''deep'' \<and>
   next_wid nested_store = 0 \<and> trace nested_store = []"
  by (simp add: nested_store_def nested_def leaf_def empty_store_def store_def)

text \<open>
  C4: while \<^verbatim>\<open>widget\<close> is not on the instance, reading it runs the wrapped function once:
  it instantiates the type's \<^verbatim>\<open>default_widget_maker\<close> when the type has one and
  \<^verbatim>\<open>TextInputWidget\<close> otherwise. The result is stored on the instance, so a later read
  returns the same widget object and leaves the store and the log of calls as they are;
  any number of reads leaves the store one read leaves. After \<^verbatim>\<open>field.widget = w\<close> a read
  returns \<open>w\<close> and the wrapped function never runs. Reading \<^verbatim>\<open>default\<close> yields the schema
  node's \<^verbatim>\<open>sdefault\<close>, computed once in the same way.
\<close>

theorem lazy_attributes_once:
  "(widget (heap s self) = None \<longrightarrow>
      fst (get_widget self s) =
        Widget (case default_widget_maker (styp (schema (heap s self))) of
                  None \<Rightarrow> TextInputWidget | Some m \<Rightarrow> m) (next_wid s) \<and>
      trace (snd (get_widget self s)) =
        trace s @ [Widget_function self, Instantiated (fst (get_widget self s))]) \<and>
   widget (heap (snd (get_widget self s)) self) = Some (fst (get_widget self s)) \<and>
   get_widget self (snd (get_widget self s)) =
     (fst (get_widget self s), snd (get_widget self s)) \<and>
   ((\<lambda>s. snd (get_widget self s)) ^^ Suc n) s = snd (get_widget self s) \<and>
   get_widget self (set_widget self w s) = (w, set_widget self w s) \<and>
   trace (set_widget self w s) = trace s \<and>
   (default (heap s self) = None \<longrightarrow>
      fst (get_default self s) = sdefault (schema (heap s self)) \<and>
      trace (snd (get_default self s)) = trace s @ [Default_function self]) \<and>
   default (heap (snd (get_default self s)) self) = Some (fst (get_default self s)) \<and>
   get_default self (snd (get_default self s)) =
     (fst (get_default self s), snd (get_default self s)) \<and>
   ((\<lambda>s. snd (get_default self s)) ^^ Suc n) s = snd (get_default self s)"
proof -
  have "((\<lambda>s. snd (get_widget self s)) ^^ Suc n) s = snd (get_widget self s)"
    by (induction n) (simp_all add: get_widget_again)
  moreover have "((\<lambda>s. snd (get_default self s)) ^^ Suc n) s = snd (get_default self s)"
    by (induction n) (simp_all add: get_default_again)
  moreover have "get_widget self (set_widget self w s) = (w, set_widget self w s)"
    by (rule get_widget_resolved) (simp add: set_widget_def store_def)
  moreover have "trace (set_widget self w s) = trace s"
    by (simp add: set_widget_def store_def)
  moreover have "widget (heap s self) = None \<longrightarrow>
      fst (get_widget self s) =
        Widget (case default_widget_maker (styp (schema (heap s self))) of
                  None \<Rightarrow> TextInputWidget | Some m \<Rightarrow> m) (next_wid s) \<and>
      trace (snd (get_widget self s)) =
        trace s @ [Widget_function self, Instantiated (fst (get_widget self s))]"
    by (simp add: get_widget_unresolved)
  moreover have "default (heap s self) = None \<longrightarrow>
      fst (get_default self s) = sdefault (schema (heap s self)) \<and>
      trace (snd (get_default self s)) = trace s @ [Default_function self]"
    by (simp add: get_default_unresolved)
  ultimately show ?thesis
    using get_widget_caches [of self s] get_widget_again [of self s]
      get_default_caches [of self s] get_default_again [of self s]
    by blast
qed

theorem lazy_attributes_once_witness:
  "widget (heap nested_store 2) = None \<and>
   fst (get_widget 2 nested_store) = Widget TextInputWidget 0 \<and>
   trace (snd (get_widget 2 nested_store)) =
     [Widget_function 2, Instantiated (Widget TextInputWidget 0)] \<and>
   widget (heap dated_store 0) = None \<and>
   fst (get_widget 0 dated_store) = Widget (TypeWidget ''DateInputWidget'') 0 \<and>
   get_widget 0 (snd (get_widget 0 dated_store)) =
     (Widget (TypeWidget ''DateInputWidget'') 0, snd (get_widget 0 dated_store)) \<and>
   default (heap dated_store 0) = None \<and>
   fst (get_default 0 dated_store) = SStr ''2010-01-01'' \<and>
   trace (snd (get_default 0 dated_store)) = [Default_function 0]"
proof -
  note a = lazy_attributes_once [of nested_store 2 0 "Widget FormWidget 7"]
  note b = lazy_attributes_once [of dated_store 0 0 "Widget FormWidget 7"]
  have "fst (get_widget 2 nested_store) = Widget TextInputWidget 0 \<and>
      trace (snd (get_widget 2 nested_store)) =
        [Widget_function 2, Instantiated (Widget TextInputWidget 0)]"
    using a [THEN conjunct1] nested_store_leaf_eval by (simp add: leaf_def)
  moreover have "fst (get_widget 0 dated_store) = Widget (TypeWidget ''DateInputWidget'') 0"
    using b [THEN conjunct1] dated_store_eval by (simp add: dated_def)
  moreover have "fst (get_default 0 dated_store) = SStr ''2010-01-01'' \<and>
      trace (snd (get_default 0 dated_store)) = [Default_function 0]"
    using b dated_store_eval by (simp add: dated_def)
  moreover have "get_widget 0 (snd (get_widget 0 dated_store)) =
      (fst (get_widget 0 dated_store), snd (get_widget 0 dated_store))"
    using b by blast
  ultimately show ?thesis
    using nested_store_leaf_eval dated_store_eval by simp
qed

section \<open>Construction of a form\<close>

lemma convert_buttons_map: "convert_buttons U bs acc = acc @ map (as_button U) bs"
proof (induction bs arbitrary: acc)
  case Nil
  then show ?case by simp
next
  case (Cons b bs)
  then show ?case by (cases b) (simp_all add: Button_init_def Let_def)
qed

lemma mirrors_root_update:
  assumes m: "mirrors s rr c a sch"
    and nxt: "next_addr s \<le> next_addr s'"
    and root: "cls (heap s' a) = cls (heap s a)" "schema (heap s' a) = schema (heap s a)"
      "name (heap s' a) = name (heap s a)" "title (heap s' a) = title (heap s a)"
      "description (heap s' a) = description (heap s a)"
      "required (heap s' a) = required (heap s a)" "renderer (heap s' a) = renderer (heap s a)"
      "children (heap s' a) = children (heap s a)"
    and rest: "\<And>b. a < b \<Longrightarrow> b < next_addr s \<Longrightarrow> heap s' b = heap s b"
  shows "mirrors s' rr c a sch"
proof (cases sch)
  case (SchemaNode n t d rq ty sd chs)
  from m SchemaNode
  have kids: "list_all2 (\<lambda>child sc. a < child \<and> mirrors s rr FieldCls child sc)
        (children (heap s a)) chs" by simp
  have "list_all2 (\<lambda>child sc. a < child \<and> mirrors s' rr FieldCls child sc)
        (children (heap s a)) chs"
  proof (rule list_all2_mono [OF kids])
    fix child sc
    assume h: "a < child \<and> mirrors s rr FieldCls child sc"
    then have "mirrors s' rr FieldCls child sc"
      using nxt rest by (intro mirrors_stable [of s rr FieldCls child sc s']) simp_all
    with h show "a < child \<and> mirrors s' rr FieldCls child sc" by simp
  qed
  with m SchemaNode nxt root show ?thesis by simp
qed

lemma Form_init_result:
  assumes "Form_init U dr sch r action_arg method_arg buttons_arg s = (a, s')"
  shows "a = next_addr s \<and>
    mirrors s' (renderer_or r dr) FormCls a sch \<and>
    action (heap s' a) = Some (case action_arg of None \<Rightarrow> ''.'' | Some x \<Rightarrow> x) \<and>
    http_method (heap s' a) = Some (case method_arg of None \<Rightarrow> ''POST'' | Some m \<Rightarrow> m) \<and>
    buttons (heap s' a) =
      Some (map (as_button U) (case buttons_arg of None \<Rightarrow> [] | Some bs \<Rightarrow> bs)) \<and>
    widget (heap s' a) = Some (Widget FormWidget (next_wid s)) \<and>
    default (heap s' a) = None \<and> error (heap s' a) = None \<and>
    trace s' = trace s @ [Instantiated (Widget FormWidget (next_wid s))] \<and>
    next_wid s' = Suc (next_wid s) \<and> next_addr s < next_addr s' \<and>
    (\<forall>b < next_addr s. heap s' b = heap s b)"
proof -
  obtain self s1 where fi: "Field_init dr FormCls sch r s = (self, s1)"
    by (cases "Field_init dr FormCls sch r s")
  from Field_init_frame [where dr = dr and c = FormCls and sch = sch and r = r and s = s] fi
  have f: "self = next_addr s" "next_addr s < next_addr s1"
    "\<forall>b < next_addr s. heap s1 b = heap s b" "trace s1 = trace s" "next_wid s1 = next_wid s"
    "bare (heap s1 self)" "mirrors s1 (renderer_or r dr) FormCls self sch"
    by auto
  define obj where "obj = (heap s1 self)
      \<lparr>action := Some (case action_arg of None \<Rightarrow> ''.'' | Some x \<Rightarrow> x),
       http_method := Some (case method_arg of None \<Rightarrow> ''POST'' | Some m \<Rightarrow> m),
       buttons := Some (map (as_button U) (case buttons_arg of None \<Rightarrow> [] | Some bs \<Rightarrow> bs)),
       widget := Some (Widget FormWidget (next_wid s))\<rparr>"
  have res: "a = self" "s' = s1\<lparr>heap := (heap s1)(self := obj), next_wid := Suc (next_wid s),
      trace := trace s @ [Instantiated (Widget FormWidget (next_wid s))]\<rparr>"
    using assms f(4,5)
    by (auto simp add: Form_init_def fi Let_def store_def instantiate_def log_def
        convert_buttons_map obj_def)
  have h: "heap s' self = obj" "\<And>b. b \<noteq> self \<Longrightarrow> heap s' b = heap s1 b"
    "next_addr s' = next_addr s1"
    by (simp_all add: res)
  have "mirrors s' (renderer_or r dr) FormCls self sch"
    using f(7) h by (intro mirrors_root_update [of s1 _ _ _ _ s']) (simp_all add: obj_def)
  moreover have "\<forall>b < next_addr s. heap s' b = heap s b"
    using f(1,3) h(2) by simp
  ultimately show ?thesis
    using f(1,2,6) h res by (simp add: obj_def bare_def)
qed

lemma capitalize_cancel: "capitalize_str ''cancel'' = ''Cancel''"
  by code_simp

text \<open>
  C7: \<^verbatim>\<open>Form(schema, renderer, action, method, buttons)\<close> allocates a \<^verbatim>\<open>Form\<close> whose
  tree mirrors the schema as \<^verbatim>\<open>Field.__init__\<close> builds it, with \<^verbatim>\<open>action\<close> and
  \<^verbatim>\<open>method\<close> as passed (\<^verbatim>\<open>'.'\<close> and \<^verbatim>\<open>'POST'\<close> when omitted), with \<^verbatim>\<open>buttons\<close> the
  given sequence in its order, each string turned into a \<^verbatim>\<open>Button\<close> with defaulted title
  and value, and with a new \<^verbatim>\<open>FormWidget\<close> assigned as \<^verbatim>\<open>widget\<close>. The only call logged is
  that instantiation, and reading \<^verbatim>\<open>widget\<close> afterwards returns the \<^verbatim>\<open>FormWidget\<close>
  without running the lazy function.
\<close>

theorem Form_init_builds_form:
  assumes "Form_init U dr sch r action_arg method_arg buttons_arg s = (a, s')"
  shows "a = next_addr s \<and>
    mirrors s' (renderer_or r dr) FormCls a sch \<and>
    action (heap s' a) = Some (case action_arg of None \<Rightarrow> ''.'' | Some x \<Rightarrow> x) \<and>
    http_method (heap s' a) = Some (case method_arg of None \<Rightarrow> ''POST'' | Some m \<Rightarrow> m) \<and>
    buttons (heap s' a) =
      Some (map (as_button U) (case buttons_arg of None \<Rightarrow> [] | Some bs \<Rightarrow> bs)) \<and>
    widget (heap s' a) = Some (Widget FormWidget (next_wid s)) \<and>
    trace s' = trace s @ [Instantiated (Widget FormWidget (next_wid s))] \<and>
    get_widget a s' = (Widget FormWidget (next_wid s), s') \<and>
    (\<forall>b < next_addr s. heap s' b = heap s b)"
  using Form_init_result [OF assms] get_widget_resolved [of s' a "Widget FormWidget (next_wid s)"]
  by blast

theorem Form_init_builds_form_witness:
  "mirrors form_store zpt FormCls 0 nested \<and>
   action (heap form_store 0) = Some ''.'' \<and> http_method (heap form_store 0) = Some ''POST'' \<and>
   buttons (heap form_store 0) =
     Some [Button (Bytes ''submit'') (Bytes ''Submit'') (Bytes ''submit''),
           Button (Bytes ''cancel'') (Bytes ''Cancel'') (Bytes ''cancel'')] \<and>
   widget (heap form_store 0) = Some (Widget FormWidget 0) \<and>
   trace form_store = [Instantiated (Widget FormWidget 0)] \<and>
   get_widget 0 form_store = (Widget FormWidget 0, form_store)"
proof -
  let ?r = "Form_init latin1 zpt nested None None None (Some [Str (Bytes ''submit''), Str (Bytes ''cancel'')])
      empty_store"
  have "?r = (fst ?r, form_store)"
    by (simp add: form_store_def)
  note m = Form_init_builds_form [OF this]
  have a: "fst ?r = 0"
    using m [THEN conjunct1] by (simp add: empty_store_eval)
  have b: "map (as_button latin1) [Str (Bytes ''submit''), Str (Bytes ''cancel'')] =
      [Button (Bytes ''submit'') (Bytes ''Submit'') (Bytes ''submit''),
       Button (Bytes ''cancel'') (Bytes ''Cancel'') (Bytes ''cancel'')]"
    by (simp add: capitalize_submit capitalize_cancel del: capitalize_str.simps)
  show ?thesis
    using m unfolding a
    by (simp add: empty_store_eval b renderer_or_def del: as_button.simps list.map)
qed

section \<open>Validation\<close>

lemma get_widget_trace:
  "get_widget self s = (w, s1) \<Longrightarrow>
   trace s1 = trace s @ (if widget (heap s self) = None
                         then [Widget_function self, Instantiated w] else [])"
  by (cases "widget (heap s self)") (auto simp: get_widget_unresolved get_widget_resolved)

lemma get_widget_heap:
  "get_widget self s = (w, s1) \<Longrightarrow>
   heap s1 = (heap s)(self := (heap s self)\<lparr>widget := Some w\<rparr>) \<and> next_addr s1 = next_addr s"
  by (cases "widget (heap s self)") (auto simp: get_widget_unresolved get_widget_resolved)

lemma validate_parse_raises:
  "parse C flds = Inl x \<Longrightarrow> validate C self flds s = (Inl x, log (Parse flds) s)"
  by (simp add: validate_def Let_def)

lemma validate_deserialize_raises:
  assumes "parse C flds = Inr pstruct"
    and "get_widget self (log (Parse flds) s) = (w, s1)"
    and "w_deserialize C w self pstruct s1 = (Inl x, s2)"
  shows "validate C self flds s = (Inl x, s2\<lparr>trace := trace s1 @ [Deserialize w self pstruct]\<rparr>)"
  using assms by (simp add: validate_def Let_def call_def)

lemma validate_returns:
  assumes "parse C flds = Inr pstruct"
    and "get_widget self (log (Parse flds) s) = (w, s1)"
    and "w_deserialize C w self pstruct s1 = (Inr cstruct, s2)"
    and "s_deserialize C (schema (heap s2 self)) cstruct = Inr v"
  shows "validate C self flds s =
    (Inr v, s2\<lparr>trace := trace s1 @ [Deserialize w self pstruct,
                                      Schema_deserialize (schema (heap s2 self)) cstruct]\<rparr>)"
  using assms by (simp add: validate_def Let_def call_def log_def)

lemma validate_schema_raises_other:
  assumes "parse C flds = Inr pstruct"
    and "get_widget self (log (Parse flds) s) = (w, s1)"
    and "w_deserialize C w self pstruct s1 = (Inr cstruct, s2)"
    and "s_deserialize C (schema (heap s2 self)) cstruct = Inl x"
    and "\<And>e. x \<noteq> Invalid e"
  shows "validate C self flds s =
    (Inl x, s2\<lparr>trace := trace s1 @ [Deserialize w self pstruct,
                                      Schema_deserialize (schema (heap s2 self)) cstruct]\<rparr>)"
  using assms by (cases x) (auto simp add: validate_def Let_def call_def log_def)

lemma validate_invalid:
  assumes "parse C flds = Inr pstruct"
    and "get_widget self (log (Parse flds) s) = (w, s1)"
    and "w_deserialize C w self pstruct s1 = (Inr cstruct, s2)"
    and "s_deserialize C (schema (heap s2 self)) cstruct = Inl (Invalid e)"
    and "get_widget self (s2\<lparr>trace := trace s1 @ [Deserialize w self pstruct,
            Schema_deserialize (schema (heap s2 self)) cstruct]\<rparr>) = (w', s4)"
    and "w_handle_error C w' self e s4 = (r, s5)"
  shows "validate C self flds s =
    ((case r of Inl y \<Rightarrow> Inl y | Inr u \<Rightarrow> Inl (ValidationFailure self cstruct e)),
     s5\<lparr>trace := trace s4 @ [Handle_error w' self e]\<rparr>)"
  using assms by (cases r) (simp_all add: validate_def Let_def call_def log_def)


lemma color_store_eval:
  "widget (heap color_store 0) = None \<and> error (heap color_store 0) = None \<and>
   schema (heap color_store 0) = leaf ''color'' \<and> trace color_store = [] \<and>
   next_wid color_store = 0 \<and> next_addr color_store = 1"
  by (simp add: color_store_def leaf_def empty_store_def store_def)

lemma echo_eval:
  "parse echo flds = Inr (SMap (map (\<lambda>(k, v). (k, SStr v)) flds)) \<and>
   w_deserialize echo w f p s = (Inr p, s) \<and>
   w_handle_error echo w f e s = (Inr (), store f ((heap s f)\<lparr>error := Some e\<rparr>) s) \<and>
   s_deserialize echo sch c =
     (if c = SMap [] then Inl (Invalid (InvalidError ''Required'')) else Inr c)"
  by (simp add: echo_def)

lemma color_widget:
  "get_widget 0 (log (Parse flds) color_store) =
     (Widget TextInputWidget 0,
      store 0 ((heap color_store 0)\<lparr>widget := Some (Widget TextInputWidget 0)\<rparr>)
        (color_store\<lparr>next_wid := 1,
           trace := [Parse flds, Widget_function 0, Instantiated (Widget TextInputWidget 0)]\<rparr>))"
  using get_widget_unresolved [of "log (Parse flds) color_store" 0] color_store_eval
  by (simp add: log_def leaf_def store_def)

lemma form_store_eval:
  "widget (heap form_store 0) = Some (Widget FormWidget 0) \<and> trace form_store = [Instantiated (Widget FormWidget 0)]"
proof -
  let ?r = "Form_init latin1 zpt nested None None None (Some [Str (Bytes ''submit''), Str (Bytes ''cancel'')])
      empty_store"
  have "?r = (fst ?r, form_store)"
    by (simp add: form_store_def)
  note m = Form_init_result [OF this]
  have a: "fst ?r = 0"
    using m [THEN conjunct1] by (simp add: empty_store_eval)
  show ?thesis
    using m unfolding a by (simp add: empty_store_eval)
qed

lemma validate_echo_red:
  "validate echo 0 [(''color'', ''red'')] color_store =
     (Inr (SMap [(''color'', SStr ''red'')]),
      store 0 ((heap color_store 0)\<lparr>widget := Some (Widget TextInputWidget 0)\<rparr>)
        (color_store\<lparr>next_wid := 1,
           trace := [Parse [(''color'', ''red'')], Widget_function 0,
             Instantiated (Widget TextInputWidget 0),
             Deserialize (Widget TextInputWidget 0) 0 (SMap [(''color'', SStr ''red'')]),
             Schema_deserialize (leaf ''color'') (SMap [(''color'', SStr ''red'')])]\<rparr>))"
proof -
  have p: "parse echo [(''color'', ''red'')] = Inr (SMap [(''color'', SStr ''red'')])"
    by (simp add: echo_eval)
  have d: "\<And>w f ps st. w_deserialize echo w f ps st = (Inr ps, st)"
    by (simp add: echo_eval)
  have sd: "\<And>sch. s_deserialize echo sch (SMap [(''color'', SStr ''red'')]) =
      Inr (SMap [(''color'', SStr ''red'')])"
    by (simp add: echo_eval)
  show ?thesis
    unfolding validate_returns [OF p color_widget d sd]
    using color_store_eval by (simp add: store_def)
qed

text \<open>
  C1: when peppercorn returns \<open>pstruct\<close> and the field's widget (resolved on this read
  if need be) deserializes it to \<open>cstruct\<close>, \<^verbatim>\<open>validate\<close> passes \<open>cstruct\<close> to the schema
  node's \<^verbatim>\<open>deserialize\<close>. If that returns \<open>v\<close>, \<^verbatim>\<open>validate\<close> returns exactly \<open>v\<close>. If it
  raises \<^verbatim>\<open>Invalid\<close> \<open>e\<close>, \<^verbatim>\<open>validate\<close> calls the widget's \<^verbatim>\<open>handle_error\<close> with this
  field and \<open>e\<close> and, once that returns, raises \<^verbatim>\<open>ValidationFailure\<close> carrying this field,
  \<open>cstruct\<close> and \<open>e\<close>. The log of calls shows the order.
\<close>

theorem validate_pipeline:
  assumes "parse C flds = Inr pstruct"
    and "get_widget self (log (Parse flds) s) = (w, s1)"
    and "w_deserialize C w self pstruct s1 = (Inr cstruct, s2)"
    and "s3 = s2\<lparr>trace := trace s @ [Parse flds] @
            (if widget (heap s self) = None then [Widget_function self, Instantiated w] else []) @
            [Deserialize w self pstruct, Schema_deserialize (schema (heap s2 self)) cstruct]\<rparr>"
  shows "widget (heap s1 self) = Some w \<and>
    (s_deserialize C (schema (heap s2 self)) cstruct = Inr v \<longrightarrow>
       validate C self flds s = (Inr v, s3)) \<and>
    (s_deserialize C (schema (heap s2 self)) cstruct = Inl (Invalid e) \<and>
     get_widget self s3 = (w', s4) \<and> w_handle_error C w' self e s4 = (Inr u, s5) \<longrightarrow>
       validate C self flds s =
         (Inl (ValidationFailure self cstruct e),
          s5\<lparr>trace := trace s3 @
            (if widget (heap s2 self) = None then [Widget_function self, Instantiated w'] else []) @
            [Handle_error w' self e]\<rparr>) \<and>
       (widget (heap s2 self) = Some w \<longrightarrow> w' = w))"
proof -
  from get_widget_trace [OF assms(2)]
  have t1: "trace s1 = trace s @ [Parse flds] @
      (if widget (heap s self) = None then [Widget_function self, Instantiated w] else [])"
    by (simp add: log_def)
  have s3: "s3 = s2\<lparr>trace := trace s1 @ [Deserialize w self pstruct,
      Schema_deserialize (schema (heap s2 self)) cstruct]\<rparr>"
    using assms(4) t1 by simp
  have "widget (heap s1 self) = Some w"
    using get_widget_caches [of self "log (Parse flds) s"] assms(2) by simp
  moreover have "s_deserialize C (schema (heap s2 self)) cstruct = Inr v \<longrightarrow>
       validate C self flds s = (Inr v, s3)"
    using validate_returns [OF assms(1-3)] s3 by simp
  moreover have "s_deserialize C (schema (heap s2 self)) cstruct = Inl (Invalid e) \<and>
     get_widget self s3 = (w', s4) \<and> w_handle_error C w' self e s4 = (Inr u, s5) \<longrightarrow>
       validate C self flds s =
         (Inl (ValidationFailure self cstruct e),
          s5\<lparr>trace := trace s3 @
            (if widget (heap s2 self) = None then [Widget_function self, Instantiated w'] else []) @
            [Handle_error w' self e]\<rparr>) \<and>
       (widget (heap s2 self) = Some w \<longrightarrow> w' = w)"
  proof (intro impI, elim conjE)
    assume inv: "s_deserialize C (schema (heap s2 self)) cstruct = Inl (Invalid e)"
      and gw: "get_widget self s3 = (w', s4)"
      and he: "w_handle_error C w' self e s4 = (Inr u, s5)"
    have h3: "heap s3 = heap s2" by (simp add: s3)
    from get_widget_trace [OF gw] h3
    have t4: "trace s4 = trace s3 @
        (if widget (heap s2 self) = None then [Widget_function self, Instantiated w'] else [])"
      by simp
    have "validate C self flds s =
        (Inl (ValidationFailure self cstruct e), s5\<lparr>trace := trace s4 @ [Handle_error w' self e]\<rparr>)"
      using validate_invalid [OF assms(1-3) inv gw [unfolded s3] he] by simp
    moreover have "widget (heap s2 self) = Some w \<longrightarrow> w' = w"
      using gw h3 by (auto simp: get_widget_resolved)
    ultimately show "validate C self flds s =
         (Inl (ValidationFailure self cstruct e),
          s5\<lparr>trace := trace s3 @
            (if widget (heap s2 self) = None then [Widget_function self, Instantiated w'] else []) @
            [Handle_error w' self e]\<rparr>) \<and>
       (widget (heap s2 self) = Some w \<longrightarrow> w' = w)"
      using t4 by simp
  qed
  ultimately show ?thesis by blast
qed


theorem validate_pipeline_witness:
  "fst (validate echo 0 [(''color'', ''red'')] color_store) = Inr (SMap [(''color'', SStr ''red'')]) \<and>
   fst (validate echo 0 [] color_store) =
     Inl (ValidationFailure 0 (SMap []) (InvalidError ''Required'')) \<and>
   error (heap (snd (validate echo 0 [] color_store)) 0) = Some (InvalidError ''Required'') \<and>
   trace (snd (validate echo 0 [] color_store)) =
     [Parse [], Widget_function 0, Instantiated (Widget TextInputWidget 0),
      Deserialize (Widget TextInputWidget 0) 0 (SMap []),
      Schema_deserialize (leaf ''color'') (SMap []),
      Handle_error (Widget TextInputWidget 0) 0 (InvalidError ''Required'')]"
proof -
  have p: "parse echo [(''color'', ''red'')] = Inr (SMap [(''color'', SStr ''red'')])"
    by (simp add: echo_eval)
  have d: "\<And>w f ps st. w_deserialize echo w f ps st = (Inr ps, st)"
    by (simp add: echo_eval)
  note ok = validate_pipeline [OF p color_widget d refl,
      of "SMap [(''color'', SStr ''red'')]", THEN conjunct2, THEN conjunct1]
  have red: "fst (validate echo 0 [(''color'', ''red'')] color_store) =
      Inr (SMap [(''color'', SStr ''red'')])"
    using ok by (simp add: echo_eval)
  have p0: "parse echo [] = Inr (SMap [])"
    by (simp add: echo_eval)
  let ?s1 = "store 0 ((heap color_store 0)\<lparr>widget := Some (Widget TextInputWidget 0)\<rparr>)
        (color_store\<lparr>next_wid := 1,
           trace := [Parse [], Widget_function 0, Instantiated (Widget TextInputWidget 0)]\<rparr>)"
  let ?s3 = "?s1\<lparr>trace := trace color_store @ [Parse []] @
            (if widget (heap color_store 0) = None
             then [Widget_function 0, Instantiated (Widget TextInputWidget 0)] else []) @
            [Deserialize (Widget TextInputWidget 0) 0 (SMap []),
             Schema_deserialize (schema (heap ?s1 0)) (SMap [])]\<rparr>"
  have g3: "get_widget 0 ?s3 = (Widget TextInputWidget 0, ?s3)"
    by (rule get_widget_resolved) (simp add: store_def)
  have h: "w_handle_error echo (Widget TextInputWidget 0) 0 (InvalidError ''Required'') ?s3 =
      (Inr (), store 0 ((heap ?s3 0)\<lparr>error := Some (InvalidError ''Required'')\<rparr>) ?s3)"
    by (simp add: echo_eval)
  have inv: "s_deserialize echo (schema (heap ?s1 0)) (SMap []) =
      Inl (Invalid (InvalidError ''Required''))"
    by (simp add: echo_eval)
  note bad = validate_pipeline [OF p0 color_widget d refl, THEN conjunct2, THEN conjunct2,
      rule_format, OF conjI [OF inv conjI [OF g3 h]], THEN conjunct1]
  have "fst (validate echo 0 [] color_store) =
      Inl (ValidationFailure 0 (SMap []) (InvalidError ''Required''))"
    using bad by simp
  moreover have "error (heap (snd (validate echo 0 [] color_store)) 0) =
      Some (InvalidError ''Required'')"
    unfolding bad by (simp add: store_def)
  moreover have "trace (snd (validate echo 0 [] color_store)) =
     [Parse [], Widget_function 0, Instantiated (Widget TextInputWidget 0),
      Deserialize (Widget TextInputWidget 0) 0 (SMap []),
      Schema_deserialize (leaf ''color'') (SMap []),
      Handle_error (Widget TextInputWidget 0) 0 (InvalidError ''Required'')]"
    unfolding bad using color_store_eval by (simp add: store_def)
  ultimately show ?thesis using red by simp
qed


text \<open>
  C6: the outcome of \<^verbatim>\<open>validate\<close> in every case. An exception raised by the parser, by
  the widget's \<^verbatim>\<open>deserialize\<close> or \<^verbatim>\<open>handle_error\<close>, or by the schema (other than
  \<^verbatim>\<open>Invalid\<close>) is the exception \<^verbatim>\<open>validate\<close> raises, unchanged. Otherwise the outcome is
  the value the schema returned, or the \<^verbatim>\<open>ValidationFailure\<close> built from the schema's
  \<^verbatim>\<open>Invalid\<close>; nothing else is turned into a \<^verbatim>\<open>ValidationFailure\<close>.
\<close>

theorem validate_outcomes:
  "(\<forall>x. parse C flds = Inl x \<longrightarrow> fst (validate C self flds s) = Inl x) \<and>
   (\<forall>pstruct w s1.
      parse C flds = Inr pstruct \<and> get_widget self (log (Parse flds) s) = (w, s1) \<longrightarrow>
      (\<forall>x s2. w_deserialize C w self pstruct s1 = (Inl x, s2) \<longrightarrow>
         fst (validate C self flds s) = Inl x) \<and>
      (\<forall>cstruct s2. w_deserialize C w self pstruct s1 = (Inr cstruct, s2) \<longrightarrow>
         (\<forall>v. s_deserialize C (schema (heap s2 self)) cstruct = Inr v \<longrightarrow>
            fst (validate C self flds s) = Inr v) \<and>
         (\<forall>x. s_deserialize C (schema (heap s2 self)) cstruct = Inl x \<and> (\<forall>e. x \<noteq> Invalid e) \<longrightarrow>
            fst (validate C self flds s) = Inl x) \<and>
         (\<forall>e w' s4.
            s_deserialize C (schema (heap s2 self)) cstruct = Inl (Invalid e) \<and>
            get_widget self (s2\<lparr>trace := trace s1 @ [Deserialize w self pstruct,
                 Schema_deserialize (schema (heap s2 self)) cstruct]\<rparr>) = (w', s4) \<longrightarrow>
            (\<forall>y s5. w_handle_error C w' self e s4 = (Inl y, s5) \<longrightarrow>
               fst (validate C self flds s) = Inl y) \<and>
            (\<forall>u s5. w_handle_error C w' self e s4 = (Inr u, s5) \<longrightarrow>
               fst (validate C self flds s) = Inl (ValidationFailure self cstruct e)))))"
proof (intro conjI allI impI; (elim conjE)?)
  fix x assume "parse C flds = Inl x"
  then show "fst (validate C self flds s) = Inl x"
    by (simp add: validate_parse_raises)
next
  fix pstruct w s1 x s2
  assume "parse C flds = Inr pstruct" "get_widget self (log (Parse flds) s) = (w, s1)"
    "w_deserialize C w self pstruct s1 = (Inl x, s2)"
  then show "fst (validate C self flds s) = Inl x"
    by (simp add: validate_deserialize_raises)
next
  fix pstruct w s1 cstruct s2 v
  assume "parse C flds = Inr pstruct" "get_widget self (log (Parse flds) s) = (w, s1)"
    "w_deserialize C w self pstruct s1 = (Inr cstruct, s2)"
    "s_deserialize C (schema (heap s2 self)) cstruct = Inr v"
  then show "fst (validate C self flds s) = Inr v"
    by (simp add: validate_returns)
next
  fix pstruct w s1 cstruct s2 x
  assume "parse C flds = Inr pstruct" "get_widget self (log (Parse flds) s) = (w, s1)"
    "w_deserialize C w self pstruct s1 = (Inr cstruct, s2)"
    "s_deserialize C (schema (heap s2 self)) cstruct = Inl x" "\<forall>e. x \<noteq> Invalid e"
  then show "fst (validate C self flds s) = Inl x"
    by (simp add: validate_schema_raises_other)
next
  fix pstruct w s1 cstruct s2 e w' s4 y s5
  assume "parse C flds = Inr pstruct" "get_widget self (log (Parse flds) s) = (w, s1)"
    "w_deserialize C w self pstruct s1 = (Inr cstruct, s2)"
    "s_deserialize C (schema (heap s2 self)) cstruct = Inl (Invalid e)"
    "get_widget self (s2\<lparr>trace := trace s1 @ [Deserialize w self pstruct,
                 Schema_deserialize (schema (heap s2 self)) cstruct]\<rparr>) = (w', s4)"
    "w_handle_error C w' self e s4 = (Inl y, s5)"
  from validate_invalid [OF this] show "fst (validate C self flds s) = Inl y"
    by simp
next
  fix pstruct w s1 cstruct s2 e w' s4 u s5
  assume "parse C flds = Inr pstruct" "get_widget self (log (Parse flds) s) = (w, s1)"
    "w_deserialize C w self pstruct s1 = (Inr cstruct, s2)"
    "s_deserialize C (schema (heap s2 self)) cstruct = Inl (Invalid e)"
    "get_widget self (s2\<lparr>trace := trace s1 @ [Deserialize w self pstruct,
                 Schema_deserialize (schema (heap s2 self)) cstruct]\<rparr>) = (w', s4)"
    "w_handle_error C w' self e s4 = (Inr u, s5)"
  from validate_invalid [OF this]
  show "fst (validate C self flds s) = Inl (ValidationFailure self cstruct e)"
    by simp
qed

theorem validate_outcomes_witness:
  "fst (validate broken_parser 0 [] color_store) = Inl (Error ''ValueError: unbalanced markers'') \<and>
   fst (validate broken_schema 0 [] color_store) = Inl (Error ''TypeError'') \<and>
   fst (validate echo 0 [] color_store) =
     Inl (ValidationFailure 0 (SMap []) (InvalidError ''Required'')) \<and>
   fst (validate echo 0 [(''color'', ''red'')] color_store) = Inr (SMap [(''color'', SStr ''red'')])"
proof -
  have "parse broken_parser [] = Inl (Error ''ValueError: unbalanced markers'')"
    by (simp add: broken_parser_def)
  from validate_outcomes [of broken_parser "[]" 0 color_store, THEN conjunct1, rule_format, OF this]
  have a: "fst (validate broken_parser 0 [] color_store) =
      Inl (Error ''ValueError: unbalanced markers'')" .
  have p: "parse broken_schema [] = Inr (SMap [])" "parse echo [] = Inr (SMap [])"
    "parse echo [(''color'', ''red'')] = Inr (SMap [(''color'', SStr ''red'')])"
    by (simp_all add: broken_schema_def echo_eval)
  have d: "\<And>w f ps st. w_deserialize broken_schema w f ps st = (Inr ps, st)"
    "\<And>w f ps st. w_deserialize echo w f ps st = (Inr ps, st)"
    by (simp_all add: broken_schema_def echo_eval)
  have "\<And>sch c. s_deserialize broken_schema sch c = Inl (Error ''TypeError'') \<and>
      (\<forall>e. Error ''TypeError'' \<noteq> Invalid e)"
    by (simp add: broken_schema_def)
  from validate_outcomes [of broken_schema "[]" 0 color_store, THEN conjunct2, rule_format,
      OF conjI [OF p(1) color_widget], THEN conjunct2, rule_format, OF d(1),
      THEN conjunct2, THEN conjunct1, rule_format, OF this]
  have b: "fst (validate broken_schema 0 [] color_store) = Inl (Error ''TypeError'')" .
  have "\<And>sch. s_deserialize echo sch (SMap [(''color'', SStr ''red'')]) =
      Inr (SMap [(''color'', SStr ''red'')])"
    by (simp add: echo_eval)
  from validate_outcomes [of echo "[(''color'', ''red'')]" 0 color_store, THEN conjunct2, rule_format,
      OF conjI [OF p(3) color_widget], THEN conjunct2, rule_format, OF d(2),
      THEN conjunct1, rule_format, OF this]
  have c: "fst (validate echo 0 [(''color'', ''red'')] color_store) =
      Inr (SMap [(''color'', SStr ''red'')])" .
  let ?s1 = "store 0 ((heap color_store 0)\<lparr>widget := Some (Widget TextInputWidget 0)\<rparr>)
        (color_store\<lparr>next_wid := 1,
           trace := [Parse [], Widget_function 0, Instantiated (Widget TextInputWidget 0)]\<rparr>)"
  let ?s3 = "?s1\<lparr>trace := trace ?s1 @ [Deserialize (Widget TextInputWidget 0) 0 (SMap []),
             Schema_deserialize (schema (heap ?s1 0)) (SMap [])]\<rparr>"
  have g3: "get_widget 0 ?s3 = (Widget TextInputWidget 0, ?s3)"
    by (rule get_widget_resolved) (simp add: store_def)
  have h: "w_handle_error echo (Widget TextInputWidget 0) 0 (InvalidError ''Required'') ?s3 =
      (Inr (), store 0 ((heap ?s3 0)\<lparr>error := Some (InvalidError ''Required'')\<rparr>) ?s3)"
    by (simp add: echo_eval)
  have inv: "s_deserialize echo (schema (heap ?s1 0)) (SMap []) =
      Inl (Invalid (InvalidError ''Required''))"
    by (simp add: echo_eval)
  from validate_outcomes [of echo "[]" 0 color_store, THEN conjunct2, rule_format,
      OF conjI [OF p(2) color_widget], THEN conjunct2, rule_format, OF d(2),
      THEN conjunct2, THEN conjunct2, rule_format, OF conjI [OF inv g3],
      THEN conjunct2, rule_format, OF h]
  have e: "fst (validate echo 0 [] color_store) =
     Inl (ValidationFailure 0 (SMap []) (InvalidError ''Required''))" .
  from a b c e show ?thesis by simp
qed

text \<open>
  C10, as stated, at a field whose widget is not resolved yet: \<^verbatim>\<open>validate\<close> succeeds, the
  widget's \<^verbatim>\<open>deserialize\<close> leaves the store alone, and yet the field has gained its
  \<^verbatim>\<open>widget\<close> attribute.
\<close>

theorem validate_writes_widget_counterexample:
  "fst (validate echo 0 [(''color'', ''red'')] color_store) = Inr (SMap [(''color'', SStr ''red'')]) \<and>
   (\<forall>w f p s. snd (w_deserialize echo w f p s) = s) \<and>
   widget (heap color_store 0) = None \<and>
   widget (heap (snd (validate echo 0 [(''color'', ''red'')] color_store)) 0) =
     Some (Widget TextInputWidget 0)"
  using color_store_eval by (simp add: validate_echo_red echo_eval store_def)

text \<open>
  C10 (amended): when \<^verbatim>\<open>validate\<close> returns a value, the calls it made are the parser, the
  lazy widget function if the widget was unresolved, the widget's \<^verbatim>\<open>deserialize\<close> and the
  schema's \<^verbatim>\<open>deserialize\<close>; \<^verbatim>\<open>handle_error\<close> is not among them. Its own code writes
  nothing but the \<^verbatim>\<open>widget\<close> attribute of this field, and that only by resolving it; the
  store it leaves is the one the widget's \<^verbatim>\<open>deserialize\<close> returned. So no \<^verbatim>\<open>error\<close>
  attribute is changed by \<^verbatim>\<open>validate\<close> itself, and when the widget's \<^verbatim>\<open>deserialize\<close>
  leaves the objects alone every \<^verbatim>\<open>error\<close> is what it was before the call.
\<close>

theorem validate_success_frame:
  assumes "validate C self flds s = (Inr v, s')"
  shows "\<exists>pstruct w s1 cstruct s2.
    parse C flds = Inr pstruct \<and>
    get_widget self (log (Parse flds) s) = (w, s1) \<and>
    w_deserialize C w self pstruct s1 = (Inr cstruct, s2) \<and>
    s_deserialize C (schema (heap s2 self)) cstruct = Inr v \<and>
    heap s1 = (heap s)(self := (heap s self)\<lparr>widget := Some w\<rparr>) \<and>
    (\<forall>a. error (heap s1 a) = error (heap s a)) \<and>
    heap s' = heap s2 \<and> next_addr s' = next_addr s2 \<and> next_wid s' = next_wid s2 \<and>
    trace s' = trace s @ [Parse flds] @
      (if widget (heap s self) = None then [Widget_function self, Instantiated w] else []) @
      [Deserialize w self pstruct, Schema_deserialize (schema (heap s2 self)) cstruct] \<and>
    (\<forall>w0 a e. Handle_error w0 a e \<in> set (trace s') \<longrightarrow> Handle_error w0 a e \<in> set (trace s)) \<and>
    (heap s2 = heap s1 \<longrightarrow>
       (\<forall>a. a \<noteq> self \<longrightarrow> heap s' a = heap s a) \<and>
       heap s' self = (heap s self)\<lparr>widget := Some w\<rparr> \<and>
       (\<forall>a. error (heap s' a) = error (heap s a)) \<and>
       (widget (heap s self) \<noteq> None \<longrightarrow> heap s' = heap s))"
proof -
  obtain pstruct where p: "parse C flds = Inr pstruct"
    using assms by (cases "parse C flds") (simp_all add: validate_parse_raises)
  obtain w s1 where gw: "get_widget self (log (Parse flds) s) = (w, s1)"
    by (cases "get_widget self (log (Parse flds) s)")
  obtain r s2 where d: "w_deserialize C w self pstruct s1 = (r, s2)"
    by (cases "w_deserialize C w self pstruct s1")
  obtain cstruct where r: "r = Inr cstruct"
  proof (cases r)
    case (Inl x)
    from validate_deserialize_raises [OF p gw d [unfolded Inl]] assms show ?thesis
      by simp
  next
    case (Inr c)
    then show ?thesis using that by simp
  qed
  note d = d [unfolded r]
  have sd: "s_deserialize C (schema (heap s2 self)) cstruct = Inr v \<and>
      s' = s2\<lparr>trace := trace s1 @ [Deserialize w self pstruct,
                 Schema_deserialize (schema (heap s2 self)) cstruct]\<rparr>"
  proof (cases "s_deserialize C (schema (heap s2 self)) cstruct")
    case (Inr v')
    from validate_returns [OF p gw d Inr] assms Inr show ?thesis by simp
  next
    case (Inl x)
    show ?thesis
    proof (cases "\<exists>e. x = Invalid e")
      case True
      then obtain e where e: "x = Invalid e" by blast
      obtain w' s4 where g4: "get_widget self (s2\<lparr>trace := trace s1 @ [Deserialize w self pstruct,
            Schema_deserialize (schema (heap s2 self)) cstruct]\<rparr>) = (w', s4)"
        by (cases "get_widget self (s2\<lparr>trace := trace s1 @ [Deserialize w self pstruct,
            Schema_deserialize (schema (heap s2 self)) cstruct]\<rparr>)")
      obtain r' s5 where h: "w_handle_error C w' self e s4 = (r', s5)"
        by (cases "w_handle_error C w' self e s4")
      from validate_invalid [OF p gw d Inl [unfolded e] g4 h] assms show ?thesis
        by (cases r') simp_all
    next
      case False
      then have "\<And>e. x \<noteq> Invalid e" by blast
      from validate_schema_raises_other [OF p gw d Inl this] assms show ?thesis by simp
    qed
  qed
  from get_widget_trace [OF gw]
  have t1: "trace s1 = trace s @ [Parse flds] @
      (if widget (heap s self) = None then [Widget_function self, Instantiated w] else [])"
    by (simp add: log_def)
  from get_widget_heap [OF gw]
  have h1: "heap s1 = (heap s)(self := (heap s self)\<lparr>widget := Some w\<rparr>)"
    by (simp add: log_def)
  have e1: "\<forall>a. error (heap s1 a) = error (heap s a)"
    by (simp add: h1)
  have tr: "trace s' = trace s @ [Parse flds] @
      (if widget (heap s self) = None then [Widget_function self, Instantiated w] else []) @
      [Deserialize w self pstruct, Schema_deserialize (schema (heap s2 self)) cstruct]"
    using sd t1 by simp
  have nh: "\<forall>w0 a e. Handle_error w0 a e \<in> set (trace s') \<longrightarrow> Handle_error w0 a e \<in> set (trace s)"
    unfolding tr by auto
  have res: "widget (heap s self) \<noteq> None \<longrightarrow> heap s1 = heap s"
  proof
    assume "widget (heap s self) \<noteq> None"
    then obtain w0 where "widget (heap (log (Parse flds) s) self) = Some w0"
      by (auto simp: log_def)
    from get_widget_resolved [OF this] gw have "s1 = log (Parse flds) s"
      by simp
    then show "heap s1 = heap s"
      by (simp add: log_def)
  qed
  have fr: "heap s2 = heap s1 \<longrightarrow>
       (\<forall>a. a \<noteq> self \<longrightarrow> heap s' a = heap s a) \<and>
       heap s' self = (heap s self)\<lparr>widget := Some w\<rparr> \<and>
       (\<forall>a. error (heap s' a) = error (heap s a)) \<and>
       (widget (heap s self) \<noteq> None \<longrightarrow> heap s' = heap s)"
    using sd h1 res by simp
  show ?thesis
    using p gw d sd h1 e1 tr nh fr
    by (intro exI [of _ pstruct] exI [of _ w] exI [of _ s1] exI [of _ cstruct] exI [of _ s2])
      simp
qed


theorem validate_success_frame_witness:
  "fst (validate echo 0 [(''color'', ''red'')] color_store) = Inr (SMap [(''color'', SStr ''red'')]) \<and>
   heap (snd (validate echo 0 [(''color'', ''red'')] color_store)) 0 =
     (heap color_store 0)\<lparr>widget := Some (Widget TextInputWidget 0)\<rparr> \<and>
   error (heap (snd (validate echo 0 [(''color'', ''red'')] color_store)) 0) =
     error (heap color_store 0) \<and>
   \<not> (\<exists>w a e. Handle_error w a e \<in>
         set (trace (snd (validate echo 0 [(''color'', ''red'')] color_store))))"
proof -
  let ?v = "validate echo 0 [(''color'', ''red'')] color_store"
  have r: "?v = (Inr (SMap [(''color'', SStr ''red'')]), snd ?v)"
    by (simp add: validate_echo_red)
  from validate_success_frame [OF r]
  obtain pstruct w s1 cstruct s2 where f:
    "get_widget 0 (log (Parse [(''color'', ''red'')]) color_store) = (w, s1)"
    "w_deserialize echo w 0 pstruct s1 = (Inr cstruct, s2)"
    "heap s1 = (heap color_store)(0 := (heap color_store 0)\<lparr>widget := Some w\<rparr>)"
    "heap (snd ?v) = heap s2"
    "\<forall>w0 a e. Handle_error w0 a e \<in> set (trace (snd ?v)) \<longrightarrow>
        Handle_error w0 a e \<in> set (trace color_store)"
    "heap s2 = heap s1 \<longrightarrow> (\<forall>a. error (heap (snd ?v) a) = error (heap color_store a))"
    by blast
  from f(1) have w: "w = Widget TextInputWidget 0"
    by (simp add: color_widget)
  from f(2) have "s2 = s1"
    by (simp add: echo_eval)
  with f w have "heap (snd ?v) 0 = (heap color_store 0)\<lparr>widget := Some (Widget TextInputWidget 0)\<rparr>"
    "error (heap (snd ?v) 0) = error (heap color_store 0)"
    "\<not> (\<exists>w a e. Handle_error w a e \<in> set (trace (snd ?v)))"
    using color_store_eval by simp_all
  then show ?thesis
    by (simp add: validate_echo_red)
qed


section \<open>Cloning\<close>

lemma wf_tree_extends:
  "wf_tree k s a \<Longrightarrow> next_addr s \<le> next_addr s' \<Longrightarrow>
   (\<And>b. b < next_addr s \<Longrightarrow> heap s' b = heap s b) \<Longrightarrow> wf_tree k s' a"
proof (induction k arbitrary: a)
  case 0
  then show ?case by simp
next
  case (Suc k)
  from Suc.prems have a: "a < next_addr s" "has_own (heap s a)"
    "list_all (wf_tree k s) (children (heap s a))" by simp_all
  from a(1) Suc.prems(3) have eq: "heap s' a = heap s a" by simp
  have "list_all (wf_tree k s') (children (heap s a))"
    using a(3) Suc.IH Suc.prems(2,3) by (simp add: list_all_iff)
  with a eq Suc.prems(2) show ?case by simp
qed

lemma is_clone_later:
  "is_clone k s s1 a c \<Longrightarrow> next_addr s1 \<le> next_addr s' \<Longrightarrow>
   (\<And>b. next_addr s \<le> b \<Longrightarrow> b < next_addr s1 \<Longrightarrow> heap s' b = heap s1 b) \<Longrightarrow>
   is_clone k s s' a c"
proof (induction k arbitrary: a c)
  case 0
  then show ?case by simp
next
  case (Suc k)
  from Suc.prems(1) have c: "next_addr s \<le> c" "c < next_addr s1"
    "same_attrs (heap s a) (heap s1 c)"
    "list_all2 (is_clone k s s1) (children (heap s a)) (children (heap s1 c))"
    by simp_all
  from c(1,2) Suc.prems(3) have eq: "heap s' c = heap s1 c" by simp
  have "list_all2 (is_clone k s s') (children (heap s a)) (children (heap s1 c))"
    using c(4) Suc.IH Suc.prems(2,3) by (auto elim!: list_all2_mono)
  with c eq Suc.prems(2) show ?case by simp
qed

lemma is_clone_earlier:
  "is_clone k s1 s' a c \<Longrightarrow> wf_tree k s a \<Longrightarrow> next_addr s \<le> next_addr s1 \<Longrightarrow>
   (\<And>b. b < next_addr s \<Longrightarrow> heap s1 b = heap s b) \<Longrightarrow>
   is_clone k s s' a c"
proof (induction k arbitrary: a c)
  case 0
  then show ?case by simp
next
  case (Suc k)
  from Suc.prems(1) have c: "next_addr s1 \<le> c" "c < next_addr s'"
    "same_attrs (heap s1 a) (heap s' c)"
    "list_all2 (is_clone k s1 s') (children (heap s1 a)) (children (heap s' c))"
    by simp_all
  from Suc.prems(2) have a: "a < next_addr s" "list_all (wf_tree k s) (children (heap s a))"
    by simp_all
  from a(1) Suc.prems(4) have eq: "heap s1 a = heap s a" by simp
  have "list_all2 (is_clone k s s') (children (heap s a)) (children (heap s' c))"
    unfolding list_all2_conv_all_nth
  proof (intro conjI allI impI)
    show "length (children (heap s a)) = length (children (heap s' c))"
      using c(4) eq by (auto dest: list_all2_lengthD)
  next
    fix i assume i: "i < length (children (heap s a))"
    with c(4) eq have "is_clone k s1 s' (children (heap s a) ! i) (children (heap s' c) ! i)"
      by (simp add: list_all2_conv_all_nth)
    moreover from a(2) i have "wf_tree k s (children (heap s a) ! i)"
      by (simp add: list_all_length)
    ultimately show "is_clone k s s' (children (heap s a) ! i) (children (heap s' c) ! i)"
      using Suc.IH Suc.prems(3,4) by blast
  qed
  with c eq Suc.prems(3) show ?case by simp
qed

lemma mirrors_cls: "mirrors s rr c a sch \<Longrightarrow> cls (heap s a) = c"
  by (cases sch) simp

lemma construct_frame:
  assumes "construct U dr c sch s = (a, s1)"
  shows "a = next_addr s \<and> next_addr s < next_addr s1 \<and>
    (\<forall>b < next_addr s. heap s1 b = heap s b) \<and> cls (heap s1 a) = c \<and>
    default (heap s1 a) = None \<and> error (heap s1 a) = None \<and>
    (c = FieldCls \<longrightarrow> bare (heap s1 a)) \<and>
    (\<exists>ws. trace s1 = trace s @ map Instantiated ws \<and> (\<forall>w \<in> set ws. wclass w = FormWidget))"
proof (cases c)
  case FieldCls
  with assms have fi: "Field_init dr FieldCls sch None s = (a, s1)"
    by (simp add: construct_def)
  from Field_init_frame [where dr = dr and c = FieldCls and sch = sch and r = None and s = s] fi
  have f: "a = next_addr s" "next_addr s < next_addr s1"
    "\<forall>b < next_addr s. heap s1 b = heap s b" "trace s1 = trace s"
    "bare (heap s1 a)" "mirrors s1 (renderer_or None dr) FieldCls a sch"
    by auto
  from f(6) have "cls (heap s1 a) = FieldCls" by (rule mirrors_cls)
  moreover have "trace s1 = trace s @ map Instantiated []" using f(4) by simp
  ultimately show ?thesis
    using f FieldCls by (auto simp: bare_def)
next
  case FormCls
  with assms have fi: "Form_init U dr sch None None None None s = (a, s1)"
    by (simp add: construct_def)
  note r = Form_init_result [OF fi]
  from r have "mirrors s1 (renderer_or None dr) FormCls a sch" by blast
  then have "cls (heap s1 a) = FormCls" by (rule mirrors_cls)
  moreover have "trace s1 = trace s @ map Instantiated [Widget FormWidget (next_wid s)]"
    using r by simp
  then have "\<exists>ws. trace s1 = trace s @ map Instantiated ws \<and> (\<forall>w \<in> set ws. wclass w = FormWidget)"
    by (intro exI [of _ "[Widget FormWidget (next_wid s)]"]) simp
  moreover from r have "a = next_addr s" "next_addr s < next_addr s1"
    "\<forall>b < next_addr s. heap s1 b = heap s b"
    "default (heap s1 a) = None" "error (heap s1 a) = None"
    by blast+
  ultimately show ?thesis
    using FormCls by auto
qed

lemma dict_update_same:
  assumes "has_own obj" "cls cloned = cls obj" "default cloned = None" "error cloned = None"
    "cls obj = FieldCls \<longrightarrow> bare cloned"
  shows "same_attrs obj (dict_update cloned obj) \<and>
    children (dict_update cloned obj) = children obj"
proof (cases "cls obj")
  case FieldCls
  with assms show ?thesis
    by (simp add: same_attrs_def dict_update_def keep_def bare_def split: option.split)
next
  case FormCls
  with assms show ?thesis
    by (auto simp add: same_attrs_def dict_update_def keep_def has_own_def split: option.split)
qed


lemma map_state_clone:
  assumes step: "\<And>a s. wf_tree k s a \<Longrightarrow>
      \<exists>c s'. clone U dr k a s = Some (c, s') \<and> is_clone k s s' a c \<and>
        next_addr s \<le> next_addr s' \<and> (\<forall>b < next_addr s. heap s' b = heap s b) \<and>
        (\<exists>ws. trace s' = trace s @ map Instantiated ws \<and> (\<forall>w \<in> set ws. wclass w = FormWidget))"
    and wf: "list_all (wf_tree k s) as"
  shows "\<exists>cs s'. map_state (clone U dr k) as s = Some (cs, s') \<and>
      list_all2 (is_clone k s s') as cs \<and>
      next_addr s \<le> next_addr s' \<and> (\<forall>b < next_addr s. heap s' b = heap s b) \<and>
      (\<exists>ws. trace s' = trace s @ map Instantiated ws \<and> (\<forall>w \<in> set ws. wclass w = FormWidget))"
  using wf
proof (induction as arbitrary: s)
  case Nil
  have "trace s = trace s @ map Instantiated []" by simp
  then show ?case by fastforce
next
  case (Cons a as)
  from Cons.prems have wa: "wf_tree k s a" and was: "list_all (wf_tree k s) as"
    by simp_all
  from step [OF wa] obtain c s1 ws1 where c:
    "clone U dr k a s = Some (c, s1)" "is_clone k s s1 a c" "next_addr s \<le> next_addr s1"
    "\<forall>b < next_addr s. heap s1 b = heap s b"
    "trace s1 = trace s @ map Instantiated ws1" "\<forall>w \<in> set ws1. wclass w = FormWidget"
    by blast
  have "list_all (wf_tree k s1) as"
    using was c(3,4) by (auto simp: list_all_iff intro: wf_tree_extends)
  from Cons.IH [OF this] obtain cs s' ws2 where r:
    "map_state (clone U dr k) as s1 = Some (cs, s')" "list_all2 (is_clone k s1 s') as cs"
    "next_addr s1 \<le> next_addr s'" "\<forall>b < next_addr s1. heap s' b = heap s1 b"
    "trace s' = trace s1 @ map Instantiated ws2" "\<forall>w \<in> set ws2. wclass w = FormWidget"
    by blast
  have m: "map_state (clone U dr k) (a # as) s = Some (c # cs, s')"
    using c(1) r(1) by simp
  have first: "is_clone k s s' a c"
    using c(2) r(3,4) by (intro is_clone_later [of k s s1 a c s']) simp_all
  have rest: "list_all2 (is_clone k s s') as cs"
    unfolding list_all2_conv_all_nth
  proof (intro conjI allI impI)
    show "length as = length cs" using r(2) by (rule list_all2_lengthD)
  next
    fix i assume i: "i < length as"
    with r(2) have "is_clone k s1 s' (as ! i) (cs ! i)"
      by (simp add: list_all2_conv_all_nth)
    moreover from was i have "wf_tree k s (as ! i)"
      by (simp add: list_all_length)
    ultimately show "is_clone k s s' (as ! i) (cs ! i)"
      using c(3,4) by (intro is_clone_earlier [of k s1 s' _ _ s]) simp_all
  qed
  have tr: "trace s' = trace s @ map Instantiated (ws1 @ ws2)"
    using c(5) r(5) by simp
  have ws: "\<forall>w \<in> set (ws1 @ ws2). wclass w = FormWidget"
    using c(6) r(6) by auto
  have fr: "\<forall>b < next_addr s. heap s' b = heap s b"
    using c(3,4) r(4) by simp
  have nx: "next_addr s \<le> next_addr s'"
    using c(3) r(3) by simp
  from tr ws have "\<exists>ws. trace s' = trace s @ map Instantiated ws \<and>
      (\<forall>w \<in> set ws. wclass w = FormWidget)" by blast
  with m first rest fr nx show ?case by simp
qed

lemma clone_good:
  "wf_tree k s self \<Longrightarrow>
   \<exists>c s'. clone U dr k self s = Some (c, s') \<and> is_clone k s s' self c \<and>
     next_addr s \<le> next_addr s' \<and> (\<forall>b < next_addr s. heap s' b = heap s b) \<and>
     (\<exists>ws. trace s' = trace s @ map Instantiated ws \<and> (\<forall>w \<in> set ws. wclass w = FormWidget))"
proof (induction k arbitrary: self s)
  case 0
  then show ?case by simp
next
  case (Suc k)
  define obj where "obj = heap s self"
  from Suc.prems have wf: "self < next_addr s" "has_own obj"
    "list_all (wf_tree k s) (children obj)"
    by (simp_all add: obj_def)
  obtain cloned s1 where con: "construct U dr (cls obj) (schema obj) s = (cloned, s1)"
    by (cases "construct U dr (cls obj) (schema obj) s")
  from construct_frame [OF con] obtain ws1 where c:
    "cloned = next_addr s" "next_addr s < next_addr s1"
    "\<forall>b < next_addr s. heap s1 b = heap s b" "cls (heap s1 cloned) = cls obj"
    "default (heap s1 cloned) = None" "error (heap s1 cloned) = None"
    "cls obj = FieldCls \<longrightarrow> bare (heap s1 cloned)"
    "trace s1 = trace s @ map Instantiated ws1" "\<forall>w \<in> set ws1. wclass w = FormWidget"
    by blast
  define copy where "copy = dict_update (heap s1 cloned) (heap s1 self)"
  define s2 where "s2 = store cloned copy s1"
  have self1: "heap s1 self = obj"
    using c(3) wf(1) by (simp add: obj_def)
  have ne: "self \<noteq> cloned"
    using c(1) wf(1) by simp
  from dict_update_same [OF wf(2) c(4) c(5) c(6) c(7)]
  have cp: "same_attrs obj copy" "children copy = children obj"
    by (simp_all add: copy_def self1)
  have s2: "next_addr s2 = next_addr s1" "trace s2 = trace s1" "heap s2 cloned = copy"
    "\<And>b. b \<noteq> cloned \<Longrightarrow> heap s2 b = heap s1 b"
    by (simp_all add: s2_def store_def)
  have fr2: "\<And>b. b < next_addr s \<Longrightarrow> heap s2 b = heap s b"
    using s2(4) c(1,3) by simp
  have kids2: "children (heap s2 self) = children obj"
    using s2(4) [of self] ne self1 by simp
  have "list_all (wf_tree k s2) (children obj)"
    using wf(3) c(2) s2(1) fr2 by (auto simp: list_all_iff intro!: wf_tree_extends [of k s _ s2])
  from map_state_clone [where k = k and U = U and dr = dr and s = s2 and as = "children obj",
      OF Suc.IH this]
  obtain cs s3 ws2 where r:
    "map_state (clone U dr k) (children obj) s2 = Some (cs, s3)"
    "list_all2 (is_clone k s2 s3) (children obj) cs"
    "next_addr s2 \<le> next_addr s3" "\<forall>b < next_addr s2. heap s3 b = heap s2 b"
    "trace s3 = trace s2 @ map Instantiated ws2" "\<forall>w \<in> set ws2. wclass w = FormWidget"
    by blast
  define s' where "s' = store cloned ((heap s3 cloned)\<lparr>children := cs\<rparr>) s3"
  have res: "clone U dr (Suc k) self s = Some (cloned, s')"
    using con r(1) kids2
    by (simp add: obj_def [symmetric] Let_def copy_def [symmetric] s2_def [symmetric] s'_def)
  have cl2: "cloned < next_addr s2"
    using c(1,2) s2(1) by simp
  have h3: "heap s3 cloned = copy"
    using r(4) cl2 s2(3) by simp
  have s': "next_addr s' = next_addr s3" "trace s' = trace s3"
    "heap s' cloned = copy\<lparr>children := cs\<rparr>"
    "\<And>b. b \<noteq> cloned \<Longrightarrow> heap s' b = heap s3 b"
    by (simp_all add: s'_def store_def h3)
  have fr: "\<forall>b < next_addr s. heap s' b = heap s b"
  proof (intro allI impI)
    fix b assume b: "b < next_addr s"
    then have "b \<noteq> cloned" "b < next_addr s2" using c(1,2) s2(1) by simp_all
    then show "heap s' b = heap s b" using s'(4) r(4) fr2 b by simp
  qed
  have kids: "list_all2 (is_clone k s s') (children obj) cs"
    unfolding list_all2_conv_all_nth
  proof (intro conjI allI impI)
    show "length (children obj) = length cs" using r(2) by (rule list_all2_lengthD)
  next
    fix i assume i: "i < length (children obj)"
    with r(2) have "is_clone k s2 s3 (children obj ! i) (cs ! i)"
      by (simp add: list_all2_conv_all_nth)
    then have "is_clone k s2 s' (children obj ! i) (cs ! i)"
    proof (rule is_clone_later)
      show "next_addr s3 \<le> next_addr s'" using s'(1) by simp
    next
      fix b assume "next_addr s2 \<le> b" "b < next_addr s3"
      with cl2 have "b \<noteq> cloned" by simp
      then show "heap s' b = heap s3 b" by (rule s'(4))
    qed
    moreover from wf(3) i have "wf_tree k s (children obj ! i)"
      by (simp add: list_all_length)
    ultimately show "is_clone k s s' (children obj ! i) (cs ! i)"
      using c(2) s2(1) fr2 by (intro is_clone_earlier [of k s2 s' _ _ s]) simp_all
  qed
  have "same_attrs obj (copy\<lparr>children := cs\<rparr>)"
    using cp(1) by (simp add: same_attrs_def)
  then have ic: "is_clone (Suc k) s s' self cloned"
    using kids c(1,2) s2(1) r(3) s'(1,3) by (simp add: obj_def)
  have tr: "trace s' = trace s @ map Instantiated (ws1 @ ws2)"
    using s'(2) r(5) s2(2) c(8) by simp
  have ws: "\<forall>w \<in> set (ws1 @ ws2). wclass w = FormWidget"
    using c(9) r(6) by auto
  from tr ws have "\<exists>ws. trace s' = trace s @ map Instantiated ws \<and>
      (\<forall>w \<in> set ws. wclass w = FormWidget)" by blast
  moreover have "next_addr s \<le> next_addr s'"
    using c(2) s2(1) r(3) s'(1) by simp
  ultimately show ?case
    using res ic fr by simp
qed


lemma resolved_store_eval:
  "next_addr resolved_store = 4 \<and> children (heap resolved_store 0) = [1, 3] \<and>
   children (heap resolved_store 1) = [2] \<and> children (heap resolved_store 2) = [] \<and>
   children (heap resolved_store 3) = [] \<and>
   cls (heap resolved_store 0) = FieldCls \<and> cls (heap resolved_store 1) = FieldCls \<and>
   cls (heap resolved_store 2) = FieldCls \<and> cls (heap resolved_store 3) = FieldCls \<and>
   widget (heap resolved_store 2) = Some (Widget TextInputWidget 0) \<and>
   widget (heap resolved_store 3) = None"
  by (simp add: resolved_store_def get_widget_def reify_def Field_widget_def instantiate_def
      log_def nested_store_def nested_def leaf_def empty_store_def store_def Let_def)

lemma resolved_store_wf: "wf_tree 3 resolved_store 0"
  using resolved_store_eval by (simp add: eval_nat_numeral has_own_def)


lemma clone_resolved_eval:
  "\<exists>s'. clone latin1 zpt 3 0 resolved_store = Some (4, s') \<and> children (heap s' 4) = [8, 11] \<and>
     children (heap s' 8) = [10] \<and> widget (heap s' 10) = Some (Widget TextInputWidget 0) \<and>
     widget (heap s' 11) = None \<and> trace s' = trace resolved_store"
  using resolved_store_eval
  by (simp add: eval_nat_numeral construct_def leaf_def nested_def store_def dict_update_def
      keep_def Let_def resolved_store_def get_widget_def reify_def Field_widget_def
      instantiate_def log_def nested_store_def empty_store_def zpt_def)


lemma form_store_wf: "wf_tree 3 form_store 0"
  by (simp add: eval_nat_numeral has_own_def form_store_def Form_init_def nested_def leaf_def
      empty_store_def store_def instantiate_def log_def Let_def)

lemma form_store_root: "cls (heap form_store 0) = FormCls \<and> next_addr form_store = 4"
  by (simp add: form_store_def Form_init_def nested_def leaf_def
      empty_store_def store_def instantiate_def log_def Let_def)

text \<open>
  C3: on a tree of fields (every object allocated, nothing deleted from a form), with fuel
  for its depth, \<^verbatim>\<open>clone\<close> returns a new object of the same class with the same schema
  and the same value for every attribute but \<^verbatim>\<open>children\<close>: a widget or default that is
  set is carried over, one that is not set is not set on the clone. Its children are
  clones of the children, recursively. The objects that existed before are unchanged, the
  only calls made are instantiations of \<^verbatim>\<open>FormWidget\<close> by \<^verbatim>\<open>Form.__init__\<close> (the lazy
  functions never run), and assigning a widget to a new object leaves every old object
  as it was, and the other way round.
\<close>

theorem clone_independent_copy:
  assumes "wf_tree k s self"
  shows "\<exists>c s'. clone U dr k self s = Some (c, s') \<and>
      is_clone k s s' self c \<and>
      cls (heap s' c) = cls (heap s self) \<and> schema (heap s' c) = schema (heap s self) \<and>
      widget (heap s' c) = widget (heap s self) \<and>
      default (heap s' c) = default (heap s self) \<and>
      length (children (heap s' c)) = length (children (heap s self)) \<and>
      (\<forall>b < next_addr s. heap s' b = heap s b) \<and>
      (\<exists>ws. trace s' = trace s @ map Instantiated ws \<and>
            (\<forall>w \<in> set ws. wclass w = FormWidget)) \<and>
      (\<forall>b w. next_addr s \<le> b \<longrightarrow>
         (\<forall>a < next_addr s. heap (set_widget b w s') a = heap s a)) \<and>
      (\<forall>a w. a < next_addr s \<longrightarrow>
         (\<forall>b. next_addr s \<le> b \<longrightarrow> heap (set_widget a w s') b = heap s' b))"
proof -
  from clone_good [OF assms, where U = U and dr = dr] obtain c s' where r:
    "clone U dr k self s = Some (c, s')" "is_clone k s s' self c"
    "\<forall>b < next_addr s. heap s' b = heap s b"
    "\<exists>ws. trace s' = trace s @ map Instantiated ws \<and> (\<forall>w \<in> set ws. wclass w = FormWidget)"
    by blast
  from assms obtain j where k: "k = Suc j" by (cases k) auto
  from r(2) have sa: "same_attrs (heap s self) (heap s' c)"
    and len: "length (children (heap s' c)) = length (children (heap s self))"
    unfolding k by (auto dest: list_all2_lengthD)
  have a: "\<forall>b w. next_addr s \<le> b \<longrightarrow>
         (\<forall>a < next_addr s. heap (set_widget b w s') a = heap s a)"
    using r(3) by (simp add: set_widget_def store_def)
  have b: "\<forall>a w. a < next_addr s \<longrightarrow>
         (\<forall>b. next_addr s \<le> b \<longrightarrow> heap (set_widget a w s') b = heap s' b)"
    by (simp add: set_widget_def store_def)
  from sa have "cls (heap s' c) = cls (heap s self) \<and> schema (heap s' c) = schema (heap s self) \<and>
      widget (heap s' c) = widget (heap s self) \<and>
      default (heap s' c) = default (heap s self)"
    by (simp add: same_attrs_def)
  with r len a b show ?thesis by blast
qed

theorem clone_independent_copy_witness:
  "wf_tree 3 resolved_store 0 \<and>
   (\<exists>s'. clone latin1 zpt 3 0 resolved_store = Some (4, s') \<and>
      is_clone 3 resolved_store s' 0 4 \<and>
      children (heap s' 4) = [8, 11] \<and> children (heap s' 8) = [10] \<and>
      widget (heap s' 10) = Some (Widget TextInputWidget 0) \<and> widget (heap s' 11) = None \<and>
      trace s' = trace resolved_store \<and>
      heap (set_widget 4 (Widget FormWidget 9) s') 0 = heap resolved_store 0 \<and>
      heap (set_widget 0 (Widget FormWidget 9) s') 4 = heap s' 4) \<and>
   wf_tree 3 form_store 0 \<and> cls (heap form_store 0) = FormCls \<and>
   (\<exists>c s'. clone latin1 zpt 3 0 form_store = Some (c, s') \<and> cls (heap s' c) = FormCls \<and>
      widget (heap s' c) = Some (Widget FormWidget 0) \<and> 4 \<le> c)"
proof -
  from clone_independent_copy [OF form_store_wf, where U = latin1 and dr = zpt] obtain c s2 where
    "clone latin1 zpt 3 0 form_store = Some (c, s2)" "is_clone 3 form_store s2 0 c"
    "cls (heap s2 c) = cls (heap form_store 0)" "widget (heap s2 c) = widget (heap form_store 0)"
    by blast
  then have form: "\<exists>c s'. clone latin1 zpt 3 0 form_store = Some (c, s') \<and> cls (heap s' c) = FormCls \<and>
      widget (heap s' c) = Some (Widget FormWidget 0) \<and> 4 \<le> c"
    using form_store_root form_store_eval by (auto simp: eval_nat_numeral)
  from clone_resolved_eval obtain s1 where e:
    "clone latin1 zpt 3 0 resolved_store = Some (4, s1)" "children (heap s1 4) = [8, 11]"
    "children (heap s1 8) = [10]" "widget (heap s1 10) = Some (Widget TextInputWidget 0)"
    "widget (heap s1 11) = None" "trace s1 = trace resolved_store"
    by blast
  from clone_independent_copy [OF resolved_store_wf, where U = latin1 and dr = zpt] e(1)
  have t: "is_clone 3 resolved_store s1 0 4"
    "\<forall>b w. next_addr resolved_store \<le> b \<longrightarrow>
       (\<forall>a < next_addr resolved_store. heap (set_widget b w s1) a = heap resolved_store a)"
    "\<forall>a w. a < next_addr resolved_store \<longrightarrow>
       (\<forall>b. next_addr resolved_store \<le> b \<longrightarrow> heap (set_widget a w s1) b = heap s1 b)"
    by auto
  have n: "next_addr resolved_store = 4"
    using resolved_store_eval by simp
  from t(2) n have "heap (set_widget 4 (Widget FormWidget 9) s1) 0 = heap resolved_store 0"
    by simp
  moreover from t(3) n have "heap (set_widget 0 (Widget FormWidget 9) s1) 4 = heap s1 4"
    by simp
  ultimately have "\<exists>s'. clone latin1 zpt 3 0 resolved_store = Some (4, s') \<and>
      is_clone 3 resolved_store s' 0 4 \<and>
      children (heap s' 4) = [8, 11] \<and> children (heap s' 8) = [10] \<and>
      widget (heap s' 10) = Some (Widget TextInputWidget 0) \<and> widget (heap s' 11) = None \<and>
      trace s' = trace resolved_store \<and>
      heap (set_widget 4 (Widget FormWidget 9) s') 0 = heap resolved_store 0 \<and>
      heap (set_widget 0 (Widget FormWidget 9) s') 4 = heap s' 4"
    using e t(1) by blast
  with resolved_store_wf form_store_wf form_store_root form show ?thesis
    by blast
qed

end
